theory Spec2Isabelle
  imports Main
begin

section \<open>Exceptions and statements that may raise\<close>

text \<open>
  The exceptions the modelled code can raise. \<open>ValueError\<close> is what numpy's
  \<^verbatim>\<open>reshape\<close> raises on a size mismatch (the specification calls it ShapeMismatch),
  \<open>IndexError\<close> is what indexing a numpy array or a list out of range raises (the
  specification calls it OutOfBounds), \<open>InvalidPolicy\<close> is the generator's
  configuration error.
\<close>

datatype error = ValueError | IndexError | InvalidPolicy

text \<open>
  A Python statement mutates the objects it is given and either completes or raises.
  It is modelled as a function from the state before to a pair: \<open>None\<close> and the state
  after when it completes, \<open>Some e\<close> and the state at the moment of the \<^verbatim>\<open>raise\<close>
  otherwise, so that what a failing statement had already mutated stays visible.
\<close>

type_synonym 's stmt = "'s \<Rightarrow> error option \<times> 's"

text \<open>\<^verbatim>\<open>for x in xs: body(x)\<close>: the loop stops at the first exception.\<close>

fun for_each :: "('a \<Rightarrow> 's stmt) \<Rightarrow> 'a list \<Rightarrow> 's stmt" where
  "for_each body [] s = (None, s)"
| "for_each body (x # xs) s =
     (case body x s of
        (None, s') \<Rightarrow> for_each body xs s'
      | (Some e, s') \<Rightarrow> (Some e, s'))"

section \<open>Rectlist: the list of rectangles to update\<close>

text \<open>
  \<^verbatim>\<open>class Rectlist(list)\<close>: a list (its elements are \<open>items\<close>) with two counters.
  Python integers are unbounded and the counters only start at 0, are reset to 0 and
  grow, so they are natural numbers.
\<close>

record 'r Rectlist =
  items :: "'r list"
  max_items :: nat
  added_items :: nat

definition Rectlist_init :: "'r Rectlist" where
  "Rectlist_init = \<lparr>items = [], max_items = 0, added_items = 0\<rparr>"

definition update_max :: "'r Rectlist \<Rightarrow> 'r Rectlist" where
  "update_max rl =
     (if max_items rl < length (items rl) then rl\<lparr>max_items := length (items rl)\<rparr> else rl)"

definition appendr :: "'r \<Rightarrow> 'r Rectlist \<Rightarrow> 'r Rectlist" where
  "appendr item rl =
     (let rl1 = rl\<lparr>items := items rl @ [item]\<rparr>;
          rl2 = rl1\<lparr>added_items := added_items rl1 + 1\<rparr>
      in update_max rl2)"

text \<open>
  The argument of \<^verbatim>\<open>extendr(itr)\<close> is a sized batch, since the method takes
  \<^verbatim>\<open>len(itr)\<close>: either a sequence of its own or the receiver itself
  (\<^verbatim>\<open>rects.extendr(rects)\<close>). \<open>batch_elements itr rl\<close> are the elements of the
  batch while the receiver is in state \<open>rl\<close>.
\<close>

datatype 'r batch = Other "'r list" | Receiver

fun batch_elements :: "'r batch \<Rightarrow> 'r Rectlist \<Rightarrow> 'r list" where
  "batch_elements (Other xs) rl = xs"
| "batch_elements Receiver rl = items rl"

text \<open>
  \<^verbatim>\<open>self.extend(itr)\<close> appends the elements the batch has before the call, and
  \<^verbatim>\<open>len(itr)\<close> is read after it: when the batch is the receiver, its length has
  doubled by then.
\<close>

definition extendr :: "'r batch \<Rightarrow> 'r Rectlist \<Rightarrow> 'r Rectlist" where
  "extendr itr rl =
     (let rl1 = rl\<lparr>items := items rl @ batch_elements itr rl\<rparr>;
          rl2 = rl1\<lparr>added_items := added_items rl1 + length (batch_elements itr rl1)\<rparr>
      in update_max rl2)"

definition reset_max :: "'r Rectlist \<Rightarrow> 'r Rectlist" where
  "reset_max rl = rl\<lparr>max_items := 0\<rparr>"

definition reset_added :: "'r Rectlist \<Rightarrow> 'r Rectlist" where
  "reset_added rl = rl\<lparr>added_items := 0\<rparr>"

definition reset :: "'r Rectlist \<Rightarrow> 'r Rectlist" where
  "reset rl = reset_added (reset_max rl)"

subsection \<open>The per-frame drain of \<^verbatim>\<open>Game.run_game\<close>\<close>

text \<open>\<^verbatim>\<open>del rects[0]\<close> raises IndexError on an empty list.\<close>

definition del_first :: "'r Rectlist stmt" where
  "del_first rl =
     (case items rl of
        [] \<Rightarrow> (Some IndexError, rl)
      | _ # rest \<Rightarrow> (None, rl\<lparr>items := rest\<rparr>))"

text \<open>
  The head of the main loop: the rectangles are handed to \<^verbatim>\<open>pygame.display.update\<close>
  (the first component of the result), then the list is emptied in place, one
  \<^verbatim>\<open>del rects[0]\<close> for each index of \<^verbatim>\<open>range(len(rects))\<close>, the length being read
  once before the loop.
\<close>

definition drain :: "'r Rectlist \<Rightarrow> 'r list \<times> error option \<times> 'r Rectlist" where
  "drain rl = (items rl, for_each (\<lambda>_. del_first) [0..<length (items rl)] rl)"

text \<open>The operations on the tracker between two resets.\<close>

datatype 'r tracker_op = Append 'r | Extend "'r batch" | Drain

fun tracker_step :: "'r tracker_op \<Rightarrow> 'r Rectlist stmt" where
  "tracker_step (Append r) rl = (None, appendr r rl)"
| "tracker_step (Extend rs) rl = (None, extendr rs rl)"
| "tracker_step Drain rl = snd (drain rl)"

section \<open>Tile\<close>

text \<open>
  A tile owns a pygame subsurface of the game window and the list \<open>hold\<close> of the
  images blitted onto it. The code asks one thing of the surface: the rectangle
  \<^verbatim>\<open>surface.blit(srf, (0, 0)).move(surface.get_abs_offset())\<close> of a blit, so the
  surface is modelled by that function from the image to the rectangle; its pixels are
  not modelled. Images \<open>'i\<close> and rectangles \<open>'r\<close> are type parameters.
\<close>

record ('i, 'r) Tile =
  surface :: "'i \<Rightarrow> 'r"
  hold :: "'i list"

definition Tile_init :: "('i \<Rightarrow> 'r) \<Rightarrow> ('i, 'r) Tile" where
  "Tile_init srf = \<lparr>surface = srf, hold = []\<rparr>"

text \<open>\<^verbatim>\<open>not bool(self.hold[1:])\<close>: a slice never raises, a list is true when non-empty.\<close>

definition is_empty :: "('i, 'r) Tile \<Rightarrow> bool" where
  "is_empty t = (\<not> (drop 1 (hold t) \<noteq> []))"

section \<open>The numpy array of tiles\<close>

text \<open>
  A two-dimensional numpy array: its shape and its elements in row-major order. The
  tiles of a playfield are distinct objects (\<^verbatim>\<open>create_playfield_tiles\<close> makes a new
  one for every cell), so the array holds them by value.
\<close>

record 'a ndarray =
  shape :: "nat \<times> nat"
  data :: "'a list"

text \<open>
  The limits of a 64-bit build of numpy: a dimension is an \<^verbatim>\<open>npy_intp\<close>, a signed
  64-bit integer, and an element of an array of \<^verbatim>\<open>dtype=object\<close> is a pointer of 8
  bytes. numpy refuses to make an array, also one without elements, when the item size
  times the product of its non-zero dimensions exceeds the largest \<^verbatim>\<open>npy_intp\<close>
  ("array is too big").
\<close>

definition intp_max :: int where
  "intp_max = 2 ^ 63 - 1"

definition item_size :: int where
  "item_size = 8"

definition array_fits :: "int \<Rightarrow> int \<Rightarrow> bool" where
  "array_fits rows columns =
     (item_size * (if rows = 0 then 1 else rows) * (if columns = 0 then 1 else columns)
        \<le> intp_max)"

definition new_array :: "'a list \<Rightarrow> int \<Rightarrow> int \<Rightarrow> error + 'a ndarray" where
  "new_array xs rows columns =
     (if array_fits rows columns then Inr \<lparr>shape = (nat rows, nat columns), data = xs\<rparr>
      else Inl ValueError)"

text \<open>
  \<^verbatim>\<open>np.asarray(list(sequence), dtype=object).reshape(rows, columns)\<close> on a
  one-dimensional array. A dimension that is no \<^verbatim>\<open>npy_intp\<close> raises ValueError
  ("Maximum allowed dimension exceeded"). A negative dimension (numpy documents
  \<open>-1\<close>) stands for the unknown one, which numpy infers from the size; two unknown
  dimensions, an unknown one that the known one does not divide the size by, and a
  product of the dimensions that overflows or is not the size raise ValueError. The
  array of the new shape is then made under the size limit above.
\<close>

definition reshape :: "'a list \<Rightarrow> int \<Rightarrow> int \<Rightarrow> error + 'a ndarray" where
  "reshape xs rows columns =
     (let n = int (length xs) in
      if rows < - intp_max - 1 \<or> intp_max < rows
         \<or> columns < - intp_max - 1 \<or> intp_max < columns then Inl ValueError
      else if rows < 0 \<and> columns < 0 then Inl ValueError
      else if rows < 0 then
        (if columns = 0 \<or> n mod columns \<noteq> 0 then Inl ValueError
         else new_array xs (n div columns) columns)
      else if columns < 0 then
        (if rows = 0 \<or> n mod rows \<noteq> 0 then Inl ValueError
         else new_array xs rows (n div rows))
      else if intp_max < rows * columns \<or> n \<noteq> rows * columns then Inl ValueError
      else new_array xs rows columns)"

text \<open>An index along an axis of length \<open>n\<close>: negative indices count from the end.\<close>

definition norm_index :: "int \<Rightarrow> nat \<Rightarrow> error + nat" where
  "norm_index i n =
     (if i < - int n \<or> int n \<le> i then Inl IndexError
      else if i < 0 then Inr (nat (i + int n))
      else Inr (nat i))"

text \<open>
  \<^verbatim>\<open>arr[row, column]\<close>: the position in \<open>data\<close> of the element the expression
  refers to, or IndexError.
\<close>

definition getitem :: "'a ndarray \<Rightarrow> int \<Rightarrow> int \<Rightarrow> error + nat" where
  "getitem arr row column =
     (case shape arr of (rows, columns) \<Rightarrow>
        (case norm_index row rows of
           Inl e \<Rightarrow> Inl e
         | Inr r \<Rightarrow>
             (case norm_index column columns of
                Inl e \<Rightarrow> Inl e
              | Inr c \<Rightarrow> Inr (r * columns + c))))"

section \<open>Playfield\<close>

text \<open>
  \<open>rects_to_update\<close> is the one \<^verbatim>\<open>Rectlist\<close> object that \<^verbatim>\<open>Game\<close> creates and
  passes to the playfield: the game and the playfield refer to the same list, so the
  model keeps its single copy here.
\<close>

record ('i, 'r) Playfield =
  empty_tile_img :: 'i
  tile_array :: "('i, 'r) Tile ndarray"
  rects_to_update :: "'r Rectlist"
  spawn_column :: int
  spawn_row :: int

definition blyt :: "int \<Rightarrow> int \<Rightarrow> 'i \<Rightarrow> ('i, 'r) Playfield stmt" where
  "blyt column row srf pf =
     (case getitem (tile_array pf) row column of
        Inl e \<Rightarrow> (Some e, pf)
      | Inr k \<Rightarrow>
          (let tile = data (tile_array pf) ! k;
               rect = surface tile srf;
               pf1 = pf\<lparr>rects_to_update := appendr rect (rects_to_update pf)\<rparr>;
               tile' = tile\<lparr>hold := hold tile @ [srf]\<rparr>
           in (None, pf1\<lparr>tile_array := (tile_array pf1)\<lparr>data := (data (tile_array pf1))[k := tile']\<rparr>\<rparr>)))"

definition blit_initial_images :: "'i \<Rightarrow> ('i, 'r) Playfield stmt" where
  "blit_initial_images img pf =
     (case shape (tile_array pf) of (rows, columns) \<Rightarrow>
        for_each (\<lambda>row. for_each (\<lambda>column. blyt (int column) (int row) img) [0..<columns])
          [0..<rows] pf)"

text \<open>
  \<^verbatim>\<open>Playfield.__init__\<close>. The two spawn attributes are assigned after the initial
  blits, which do not read them.
\<close>

definition Playfield_init ::
  "int \<Rightarrow> int \<Rightarrow> ('i, 'r) Tile list \<Rightarrow> 'i \<Rightarrow> 'r Rectlist \<Rightarrow> int \<Rightarrow> int
   \<Rightarrow> error + ('i, 'r) Playfield" where
  "Playfield_init rows columns sequence img rects sp_row sp_column =
     (case reshape sequence rows columns of
        Inl e \<Rightarrow> Inl e
      | Inr arr \<Rightarrow>
          (case blit_initial_images img
                  \<lparr>empty_tile_img = img, tile_array = arr, rects_to_update = rects,
                   spawn_column = sp_column, spawn_row = sp_row\<rparr> of
             (None, pf) \<Rightarrow> Inr pf
           | (Some e, _) \<Rightarrow> Inl e))"

text \<open>The body of the loops of \<^verbatim>\<open>clear_all_tiles\<close>, for one cell.\<close>

definition clear_tile :: "int \<Rightarrow> int \<Rightarrow> ('i, 'r) Playfield stmt" where
  "clear_tile row column pf =
     (case getitem (tile_array pf) row column of
        Inl e \<Rightarrow> (Some e, pf)
      | Inr k \<Rightarrow>
          if \<not> is_empty (data (tile_array pf) ! k) then
            (let tile' = (data (tile_array pf) ! k)\<lparr>hold := []\<rparr>;
                 pf1 = pf\<lparr>tile_array := (tile_array pf)\<lparr>data := (data (tile_array pf))[k := tile']\<rparr>\<rparr>
             in blyt column row (empty_tile_img pf1) pf1)
          else (None, pf))"

definition clear_all_tiles :: "('i, 'r) Playfield stmt" where
  "clear_all_tiles pf =
     (case shape (tile_array pf) of (rows, columns) \<Rightarrow>
        for_each (\<lambda>row. for_each (\<lambda>column. clear_tile (int row) (int column)) [0..<columns])
          [0..<rows] pf)"

section \<open>Tetrominoes\<close>

text \<open>
  What \<^verbatim>\<open>draw_tetromino\<close> reads of a tetromino: iterating it yields its minoes, each
  with a \<^verbatim>\<open>row\<close> and a \<^verbatim>\<open>column\<close>, and it has a \<^verbatim>\<open>spawn_offset\<close> and an
  \<^verbatim>\<open>img\<close>. The shapes themselves are inputs.
\<close>

record Mino =
  mino_row :: int
  mino_column :: int

record 'i Tetromino =
  minoes :: "Mino list"
  spawn_offset :: int
  tetromino_img :: 'i

definition draw_tetromino :: "'i Tetromino \<Rightarrow> ('i, 'r) Playfield stmt" where
  "draw_tetromino tetromino pf =
     for_each
       (\<lambda>mino pf. blyt (spawn_column pf + mino_column mino)
                     (spawn_row pf + mino_row mino + spawn_offset tetromino)
                     (tetromino_img tetromino) pf)
       (minoes tetromino) pf"

section \<open>Reachable playfields\<close>

text \<open>
  The number of elements of a numpy array is the product of its shape.
\<close>

definition well_formed :: "('i, 'r) Playfield \<Rightarrow> bool" where
  "well_formed pf =
     (length (data (tile_array pf)) = fst (shape (tile_array pf)) * snd (shape (tile_array pf)))"

text \<open>
  The playfields a session can hold: a constructed one, and what the playfield's methods
  make of a reachable one, whether they complete or raise. The tracker is shared with
  the game, which appends to it, drains it and resets its counters, so any change of the
  tracker keeps a playfield reachable.
\<close>

inductive reachable :: "('i, 'r) Playfield \<Rightarrow> bool" where
  constructed:
    "Playfield_init rows columns sequence img rects sp_row sp_column = Inr pf \<Longrightarrow> reachable pf"
| blitted:
    "reachable pf \<Longrightarrow> blyt column row srf pf = (e, pf') \<Longrightarrow> reachable pf'"
| cleared:
    "reachable pf \<Longrightarrow> clear_all_tiles pf = (e, pf') \<Longrightarrow> reachable pf'"
| drawn:
    "reachable pf \<Longrightarrow> draw_tetromino tetromino pf = (e, pf') \<Longrightarrow> reachable pf'"
| tracker_changed:
    "reachable pf \<Longrightarrow> reachable (pf\<lparr>rects_to_update := rects\<rparr>)"

text \<open>
  Two properties of the tiles of a playfield: every hold is non-empty, and moreover a
  hold of one image holds the background.
\<close>

definition stamped :: "('i, 'r) Playfield \<Rightarrow> bool" where
  "stamped pf =
     (\<forall>t \<in> set (data (tile_array pf)).
        hold t \<noteq> [] \<and> (is_empty t \<longrightarrow> hold t = [empty_tile_img pf]))"


section \<open>The piece generator\<close>

text \<open>
  Modelled from the spec: the module \<^verbatim>\<open>generator\<close> (\<^verbatim>\<open>Unpacker\<close>,
  \<^verbatim>\<open>packer_dict\<close>, \<^verbatim>\<open>rs_dict\<close>) is not among the sources; only its use in
  \<^verbatim>\<open>Game.run_game\<close> is. The random source is the capability
  \<open>next_in_range(low, high)\<close> with inclusive bounds over a state that every draw
  advances: a tape of raw numbers and the position of the next one.
\<close>

record random_source =
  tape :: "nat \<Rightarrow> nat"
  position :: nat

definition next_in_range :: "int \<Rightarrow> int \<Rightarrow> random_source \<Rightarrow> int \<times> random_source" where
  "next_in_range low high src =
     (low + int (tape src (position src)) mod (high - low + 1),
      src\<lparr>position := position src + 1\<rparr>)"

text \<open>
  Modelled from the spec: the supply policies. "No rules" forwards
  \<open>next_in_range(0, variant_count - 1)\<close> and keeps no memory.
\<close>

datatype supply_policy = No_rules

fun draw :: "supply_policy \<Rightarrow> int \<Rightarrow> random_source \<Rightarrow> int \<times> random_source" where
  "draw No_rules variant_count src = next_in_range 0 (variant_count - 1) src"

text \<open>
  Modelled from the spec: the generator, a supply policy over a random source;
  constructing it with an empty variant set is the configuration error InvalidPolicy.
\<close>

record Unpacker =
  policy :: supply_policy
  variant_count :: int
  source :: random_source

definition Unpacker_init :: "supply_policy \<Rightarrow> int \<Rightarrow> random_source \<Rightarrow> error + Unpacker" where
  "Unpacker_init pol n src =
     (if n \<le> 0 then Inl InvalidPolicy
      else Inr \<lparr>policy = pol, variant_count = n, source = src\<rparr>)"

definition spawn_next :: "Unpacker \<Rightarrow> int \<times> Unpacker" where
  "spawn_next u =
     (case draw (policy u) (variant_count u) (source u) of
        (v, src') \<Rightarrow> (v, u\<lparr>source := src'\<rparr>))"

text \<open>\<open>n\<close> calls of \<open>spawn_next\<close> in a row: the indices drawn and the generator after.\<close>

fun spawn_many :: "nat \<Rightarrow> Unpacker \<Rightarrow> int list \<times> Unpacker" where
  "spawn_many 0 u = ([], u)"
| "spawn_many (Suc n) u =
     (case spawn_next u of
        (v, u') \<Rightarrow> (case spawn_many n u' of (vs, u'') \<Rightarrow> (v # vs, u'')))"

section \<open>Auxiliary notions\<close>

text \<open>
  What one blit and one clear make of a tile, and what a statement that touches the
  single cell at position \<open>k\<close> makes of a playfield: the tile becomes \<open>g tile\<close> and
  the rectangles \<open>rs tile\<close> are appended to the tracker. \<open>cells_done g rs n\<close> is the
  playfield after the first \<open>n\<close> cells were treated so.
\<close>

definition blit_tile :: "'i \<Rightarrow> ('i, 'r) Tile \<Rightarrow> ('i, 'r) Tile" where
  "blit_tile srf t = t\<lparr>hold := hold t @ [srf]\<rparr>"

definition cleared_tile :: "'i \<Rightarrow> ('i, 'r) Tile \<Rightarrow> ('i, 'r) Tile" where
  "cleared_tile bg t = (if is_empty t then t else t\<lparr>hold := [bg]\<rparr>)"

definition cell_step ::
  "(('i, 'r) Tile \<Rightarrow> ('i, 'r) Tile) \<Rightarrow> (('i, 'r) Tile \<Rightarrow> 'r list) \<Rightarrow> nat
   \<Rightarrow> ('i, 'r) Playfield \<Rightarrow> ('i, 'r) Playfield" where
  "cell_step g rs k pf =
     pf\<lparr>rects_to_update := fold appendr (rs (data (tile_array pf) ! k)) (rects_to_update pf),
        tile_array := (tile_array pf)\<lparr>data := (data (tile_array pf))[k := g (data (tile_array pf) ! k)]\<rparr>\<rparr>"

definition cells_done ::
  "(('i, 'r) Tile \<Rightarrow> ('i, 'r) Tile) \<Rightarrow> (('i, 'r) Tile \<Rightarrow> 'r list) \<Rightarrow> nat
   \<Rightarrow> ('i, 'r) Playfield \<Rightarrow> ('i, 'r) Playfield" where
  "cells_done g rs n pf =
     pf\<lparr>rects_to_update :=
          fold appendr (concat (map rs (take n (data (tile_array pf))))) (rects_to_update pf),
        tile_array := (tile_array pf)\<lparr>data :=
          map g (take n (data (tile_array pf))) @ drop n (data (tile_array pf))\<rparr>\<rparr>"

text \<open>
  A sequence of calls \<^verbatim>\<open>blyt(column, row, srf)\<close>, the images that the calls of such a
  sequence addressed to position \<open>k\<close> blit, the rectangle a call appends to the
  tracker, and whether a call addresses a cell of the grid. \<open>placements\<close> are the
  calls \<^verbatim>\<open>draw_tetromino\<close> makes, one for each mino, and \<open>minoes_at\<close> the minoes
  it places on position \<open>k\<close>.
\<close>

definition blyts :: "(int \<times> int \<times> 'i) list \<Rightarrow> ('i, 'r) Playfield stmt" where
  "blyts bs = for_each (\<lambda>(column, row, srf). blyt column row srf) bs"

definition blits_onto :: "'a ndarray \<Rightarrow> nat \<Rightarrow> (int \<times> int \<times> 'i) list \<Rightarrow> 'i list" where
  "blits_onto arr k bs =
     map (\<lambda>(column, row, srf). srf)
       (filter (\<lambda>(column, row, srf). getitem arr row column = Inr k) bs)"

definition rect_of_blit :: "('i, 'r) Playfield \<Rightarrow> int \<times> int \<times> 'i \<Rightarrow> 'r" where
  "rect_of_blit pf b =
     (case b of (column, row, srf) \<Rightarrow>
        surface (data (tile_array pf) ! projr (getitem (tile_array pf) row column)) srf)"

definition in_grid :: "('i, 'r) Playfield \<Rightarrow> int \<times> int \<times> 'i \<Rightarrow> bool" where
  "in_grid pf b = (case b of (column, row, srf) \<Rightarrow> \<not> isl (getitem (tile_array pf) row column))"

definition placements :: "('i, 'r) Playfield \<Rightarrow> 'i Tetromino \<Rightarrow> (int \<times> int \<times> 'i) list" where
  "placements pf tetromino =
     map (\<lambda>mino. (spawn_column pf + mino_column mino,
                   spawn_row pf + mino_row mino + spawn_offset tetromino,
                   tetromino_img tetromino))
       (minoes tetromino)"

definition minoes_at :: "('i, 'r) Playfield \<Rightarrow> 'i Tetromino \<Rightarrow> nat \<Rightarrow> Mino list" where
  "minoes_at pf tetromino k =
     filter (\<lambda>mino. getitem (tile_array pf) (spawn_row pf + mino_row mino + spawn_offset tetromino)
                      (spawn_column pf + mino_column mino) = Inr k)
       (minoes tetromino)"

section \<open>Example inputs\<close>

text \<open>
  Tiles for the examples: images are strings, and the rectangle of a blit onto tile
  number \<open>k\<close> is the pair of \<open>k\<close> and the image.
\<close>

definition example_tiles :: "nat \<Rightarrow> (string, nat \<times> string) Tile list" where
  "example_tiles n = map (\<lambda>k. Tile_init (Pair k)) [0..<n]"

text \<open>
  The I piece of the specification (minoes at row 0, columns 0 to 3, no spawn offset),
  and a playfield as construction from the example tiles leaves it, with the spawn
  anchor of the default configuration (row 3, column 4) and the tracker drained and
  reset.
\<close>

definition I_minoes :: "Mino list" where
  "I_minoes = [\<lparr>mino_row = 0, mino_column = 0\<rparr>, \<lparr>mino_row = 0, mino_column = 1\<rparr>,
               \<lparr>mino_row = 0, mino_column = 2\<rparr>, \<lparr>mino_row = 0, mino_column = 3\<rparr>]"

definition example_I_piece :: "string Tetromino" where
  "example_I_piece = \<lparr>minoes = I_minoes, spawn_offset = 0, tetromino_img = ''I''\<rparr>"

definition example_playfield :: "nat \<Rightarrow> nat \<Rightarrow> (string, nat \<times> string) Playfield" where
  "example_playfield rows columns =
     \<lparr>empty_tile_img = ''bg'',
      tile_array = \<lparr>shape = (rows, columns),
                    data = map (\<lambda>k. \<lparr>surface = Pair k, hold = [''bg'']\<rparr>) [0..<rows * columns]\<rparr>,
      rects_to_update = Rectlist_init, spawn_column = 4, spawn_row = 3\<rparr>"

text \<open>A random source for the examples: its tape holds 3, 8, 13, and so on.\<close>

definition example_source :: random_source where
  "example_source = \<lparr>tape = (\<lambda>k. 5 * k + 3), position = 0\<rparr>"

section \<open>Properties of the tracker\<close>

lemma for_each_append:
  "for_each body (xs @ ys) s =
     (case for_each body xs s of
        (None, s') \<Rightarrow> for_each body ys s'
      | (Some e, s') \<Rightarrow> (Some e, s'))"
  by (induction xs arbitrary: s) (auto split: prod.splits option.splits)

lemma for_each_del_first:
  "n \<le> length (items rl) \<Longrightarrow>
   for_each (\<lambda>_. del_first) [k..<k + n] rl = (None, rl\<lparr>items := drop n (items rl)\<rparr>)"
proof (induction n arbitrary: rl k)
  case 0
  then show ?case by simp
next
  case (Suc n)
  then obtain x rest where xs: "items rl = x # rest"
    by (cases "items rl") auto
  have step: "del_first rl = (None, rl\<lparr>items := rest\<rparr>)"
    by (simp add: del_first_def xs)
  have "[k..<k + Suc n] = k # [Suc k..<Suc k + n]"
    by (simp add: upt_rec)
  moreover have "for_each (\<lambda>_. del_first) [Suc k..<Suc k + n] (rl\<lparr>items := rest\<rparr>)
      = (None, rl\<lparr>items := rest\<rparr>\<lparr>items := drop n (items (rl\<lparr>items := rest\<rparr>))\<rparr>)"
    using Suc.prems xs by (intro Suc.IH) simp
  ultimately show ?case
    by (simp add: step xs)
qed

lemma drain_result: "drain rl = (items rl, None, rl\<lparr>items := []\<rparr>)"
  using for_each_del_first [of "length (items rl)" rl 0] by (simp add: drain_def)

lemma appendr_result:
  "appendr r rl =
     rl\<lparr>items := items rl @ [r],
        max_items := max (max_items rl) (length (items rl) + 1),
        added_items := added_items rl + 1\<rparr>"
  by (simp add: appendr_def update_max_def Let_def max_def)

lemma appendr_fields:
  "items (appendr r rl) = items rl @ [r]"
  "max_items (appendr r rl) = max (max_items rl) (length (items rl) + 1)"
  "added_items (appendr r rl) = added_items rl + 1"
  by (simp_all add: appendr_result)

lemma fold_appendr:
  "fold appendr itr rl =
     rl\<lparr>items := items rl @ itr,
        max_items := (if itr = [] then max_items rl
                      else max (max_items rl) (length (items rl) + length itr)),
        added_items := added_items rl + length itr\<rparr>"
proof (induction itr arbitrary: rl)
  case Nil
  then show ?case by simp
next
  case (Cons r itr)
  have "fold appendr (r # itr) rl = fold appendr itr (appendr r rl)"
    by simp
  also have "\<dots> = (appendr r rl)\<lparr>items := items (appendr r rl) @ itr,
        max_items := (if itr = [] then max_items (appendr r rl)
                      else max (max_items (appendr r rl))
                             (length (items (appendr r rl)) + length itr)),
        added_items := added_items (appendr r rl) + length itr\<rparr>"
    by (rule Cons.IH)
  finally have eq: "fold appendr (r # itr) rl = (appendr r rl)\<lparr>items := items (appendr r rl) @ itr,
        max_items := (if itr = [] then max_items (appendr r rl)
                      else max (max_items (appendr r rl))
                             (length (items (appendr r rl)) + length itr)),
        added_items := added_items (appendr r rl) + length itr\<rparr>" .
  show ?case
    unfolding eq by (rule Rectlist.equality) (simp_all add: appendr_fields max_def)
qed

lemma extendr_result:
  "extendr (Other itr) rl =
     rl\<lparr>items := items rl @ itr,
        max_items := max (max_items rl) (length (items rl) + length itr),
        added_items := added_items rl + length itr\<rparr>"
  by (simp add: extendr_def update_max_def Let_def max_def)

lemma extendr_Receiver:
  "extendr Receiver rl =
     rl\<lparr>items := items rl @ items rl,
        max_items := max (max_items rl) (2 * length (items rl)),
        added_items := added_items rl + 2 * length (items rl)\<rparr>"
  by (simp add: extendr_def update_max_def Let_def max_def)

lemma tracker_step_ok:
  "\<exists>rl'. tracker_step op rl = (None, rl') \<and> max_items rl \<le> max_items rl'
     \<and> length (items rl') \<le> max_items rl'"
proof (cases op)
  case (Append r)
  then show ?thesis by (simp add: appendr_def update_max_def Let_def)
next
  case (Extend rs)
  then show ?thesis by (cases rs) (simp_all add: extendr_result extendr_Receiver)
next
  case Drain
  then show ?thesis by (simp add: drain_result)
qed

lemma tracker_steps_ok:
  "\<exists>rl'. for_each tracker_step ops rl = (None, rl') \<and> max_items rl \<le> max_items rl'"
proof (induction ops arbitrary: rl)
  case Nil
  then show ?case by simp
next
  case (Cons op ops)
  obtain rl1 where s1: "tracker_step op rl = (None, rl1)" and m1: "max_items rl \<le> max_items rl1"
    using tracker_step_ok [of op rl] by blast
  obtain rl2 where s2: "for_each tracker_step ops rl1 = (None, rl2)"
    and m2: "max_items rl1 \<le> max_items rl2"
    using Cons.IH [of rl1] by blast
  show ?case using s1 s2 m1 m2 by simp
qed

subsection \<open>Batch append against single appends\<close>




subsection \<open>The peak counter never decreases\<close>

text \<open>
  C6: every append, extend and drain completes, does not lower \<open>max_items\<close> and
  leaves it at least the number of pending rectangles; along any sequence of such
  operations, split anywhere, \<open>max_items\<close> at the split lies between its value before
  and its value after; and every append adds one to \<open>added_items\<close> (an extend by a
  batch of its own adds the batch size), whether or not it raises the peak.
\<close>

theorem max_items_monotone:
  "(\<exists>rl'. tracker_step op rl = (None, rl') \<and> max_items rl \<le> max_items rl'
       \<and> length (items rl') \<le> max_items rl')
   \<and> (\<exists>rl1 rl2. for_each tracker_step ops1 rl = (None, rl1)
       \<and> for_each tracker_step ops2 rl1 = (None, rl2)
       \<and> for_each tracker_step (ops1 @ ops2) rl = (None, rl2)
       \<and> max_items rl \<le> max_items rl1 \<and> max_items rl1 \<le> max_items rl2)
   \<and> added_items (appendr r rl) = added_items rl + 1
   \<and> added_items (extendr (Other rs) rl) = added_items rl + length rs"
proof -
  obtain rl1 where s1: "for_each tracker_step ops1 rl = (None, rl1)"
    and m1: "max_items rl \<le> max_items rl1"
    using tracker_steps_ok [of ops1 rl] by blast
  obtain rl2 where s2: "for_each tracker_step ops2 rl1 = (None, rl2)"
    and m2: "max_items rl1 \<le> max_items rl2"
    using tracker_steps_ok [of ops2 rl1] by blast
  have s12: "for_each tracker_step (ops1 @ ops2) rl = (None, rl2)"
    by (simp add: for_each_append s1 s2)
  have "\<exists>rl1 rl2. for_each tracker_step ops1 rl = (None, rl1)
       \<and> for_each tracker_step ops2 rl1 = (None, rl2)
       \<and> for_each tracker_step (ops1 @ ops2) rl = (None, rl2)
       \<and> max_items rl \<le> max_items rl1 \<and> max_items rl1 \<le> max_items rl2"
    using s1 s2 s12 m1 m2 by blast
  moreover have "added_items (appendr r rl) = added_items rl + 1"
    by (simp add: appendr_result)
  moreover have "added_items (extendr (Other rs) rl) = added_items rl + length rs"
    by (simp add: extendr_result)
  ultimately show ?thesis
    using tracker_step_ok [of op rl] by blast
qed

section \<open>Properties of the playfield\<close>

subsection \<open>Indexing and loops\<close>

lemma norm_index_nat: "r < n \<Longrightarrow> norm_index (int r) n = Inr r"
  by (simp add: norm_index_def)

lemma norm_index_Inr: "norm_index i n = Inr r \<Longrightarrow> r < n"
  by (auto simp: norm_index_def split: if_splits)

lemma norm_index_Inl:
  "norm_index i n = Inl e \<longleftrightarrow> e = IndexError \<and> (i < - int n \<or> int n \<le> i)"
  by (auto simp: norm_index_def)

lemma flat_index_less:
  fixes r c rows columns :: nat
  assumes "r < rows" "c < columns"
  shows "r * columns + c < rows * columns"
proof -
  have "r * columns + c < r * columns + columns" using assms by simp
  also have "\<dots> = Suc r * columns" by simp
  also have "\<dots> \<le> rows * columns" using assms by (intro mult_le_mono1) simp
  finally show ?thesis .
qed

lemma getitem_nat:
  "shape arr = (rows, columns) \<Longrightarrow> r < rows \<Longrightarrow> c < columns
   \<Longrightarrow> getitem arr (int r) (int c) = Inr (r * columns + c)"
  by (simp add: getitem_def norm_index_nat)

lemma getitem_Inr:
  "getitem arr row column = Inr k \<Longrightarrow> k < fst (shape arr) * snd (shape arr)"
  by (auto simp: getitem_def split: prod.splits sum.splits
      dest!: norm_index_Inr intro: flat_index_less)

lemma getitem_Inl:
  "shape arr = (rows, columns) \<Longrightarrow>
   getitem arr row column = Inl e \<longleftrightarrow>
     e = IndexError \<and> (row < - int rows \<or> int rows \<le> row \<or> column < - int columns \<or> int columns \<le> column)"
  by (auto simp: getitem_def norm_index_def split: sum.splits if_splits)

lemma getitem_shape: "shape arr' = shape arr \<Longrightarrow> getitem arr' row column = getitem arr row column"
  by (simp add: getitem_def)

lemma blyt_Inl: "getitem (tile_array pf) row column = Inl e \<Longrightarrow> blyt column row srf pf = (Some e, pf)"
  by (simp add: blyt_def)

lemma blyt_Inr:
  "getitem (tile_array pf) row column = Inr k \<Longrightarrow>
   blyt column row srf pf =
     (None, pf\<lparr>rects_to_update := appendr (surface (data (tile_array pf) ! k) srf) (rects_to_update pf),
              tile_array := (tile_array pf)\<lparr>data := (data (tile_array pf))
                 [k := (data (tile_array pf) ! k)\<lparr>hold := hold (data (tile_array pf) ! k) @ [srf]\<rparr>]\<rparr>\<rparr>)"
  by (simp add: blyt_def Let_def)


lemma for_each_cong_inv:
  assumes "I s"
    and "\<And>x s. x \<in> set xs \<Longrightarrow> I s \<Longrightarrow> f x s = g x s"
    and "\<And>x s e s'. x \<in> set xs \<Longrightarrow> I s \<Longrightarrow> g x s = (e, s') \<Longrightarrow> I s'"
  shows "for_each f xs s = for_each g xs s"
  using assms
proof (induction xs arbitrary: s)
  case Nil
  then show ?case by simp
next
  case (Cons x xs)
  have fx: "f x s = g x s" using Cons.prems by simp
  obtain e s' where gx: "g x s = (e, s')" by (cases "g x s")
  have Is': "I s'" using Cons.prems(3) [of x s e s'] Cons.prems(1) gx by simp
  show ?case
  proof (cases e)
    case None
    have "for_each f xs s' = for_each g xs s'"
    proof (rule Cons.IH [OF Is'])
      fix y t
      assume "y \<in> set xs" "I t"
      then show "f y t = g y t" using Cons.prems(2) by simp
    next
      fix y t e t'
      assume "y \<in> set xs" "I t" "g y t = (e, t')"
      then show "I t'" using Cons.prems(3) [of y t e t'] by simp
    qed
    then show ?thesis using fx gx None by simp
  next
    case (Some a)
    then show ?thesis using fx gx by simp
  qed
qed

lemma for_each_invariant:
  assumes "for_each body xs s = (e, s')" and "I s"
    and "\<And>x s e s'. x \<in> set xs \<Longrightarrow> I s \<Longrightarrow> body x s = (e, s') \<Longrightarrow> I s'"
  shows "I s'"
  using assms
proof (induction xs arbitrary: s)
  case Nil
  then show ?case by simp
next
  case (Cons x xs)
  obtain e1 s1 where b: "body x s = (e1, s1)" by (cases "body x s")
  have I1: "I s1" using Cons.prems(3) [of x s e1 s1] Cons.prems(2) b by simp
  show ?case
  proof (cases e1)
    case None
    then have "for_each body xs s1 = (e, s')" using Cons.prems(1) b by simp
    then show ?thesis
    proof (rule Cons.IH [OF _ I1])
      fix y t e t'
      assume "y \<in> set xs" "I t" "body y t = (e, t')"
      then show "I t'" using Cons.prems(3) [of y t e t'] by simp
    qed
  next
    case (Some a)
    then show ?thesis using Cons.prems(1) b I1 by simp
  qed
qed

lemma for_each_map: "for_each body (map h xs) s = for_each (\<lambda>x. body (h x)) xs s"
  by (induction xs arbitrary: s) (auto split: prod.splits option.splits)


lemma for_each_cong:
  "(\<And>x s. x \<in> set xs \<Longrightarrow> f x s = g x s) \<Longrightarrow> for_each f xs s = for_each g xs s"
  by (rule for_each_cong_inv [where I = "\<lambda>_. True"]) simp_all

lemma for_each_single: "for_each body [x] s = body x s"
  by (auto split: prod.splits option.splits)

lemma for_each_row:
  "for_each (\<lambda>column. f row column) [0..<columns] s =
   for_each (\<lambda>k. f (k div columns) (k mod columns)) [row * columns..<row * columns + columns] s"
proof -
  have "[row * columns..<row * columns + columns] = map (\<lambda>c. c + row * columns) [0..<columns]"
    by (simp add: map_add_upt add.commute)
  then have "for_each (\<lambda>k. f (k div columns) (k mod columns)) [row * columns..<row * columns + columns] s
      = for_each (\<lambda>c. f ((c + row * columns) div columns) ((c + row * columns) mod columns)) [0..<columns] s"
    by (simp add: for_each_map)
  also have "\<dots> = for_each (\<lambda>column. f row column) [0..<columns] s"
    by (rule for_each_cong) simp
  finally show ?thesis by simp
qed

lemma nested_loops_flat:
  "for_each (\<lambda>row. for_each (\<lambda>column. f row column) [0..<columns]) [0..<rows] s =
   for_each (\<lambda>k. f (k div columns) (k mod columns)) [0..<rows * columns] s"
proof (induction rows)
  case 0
  then show ?case by simp
next
  case (Suc rows)
  have split: "[0..<Suc rows * columns] = [0..<rows * columns] @ [rows * columns..<rows * columns + columns]"
    using upt_add_eq_append [of 0 "rows * columns" columns] by (simp add: add.commute)
  show ?case
    unfolding split upt_Suc_append [OF le0] for_each_append Suc.IH for_each_single
    by (simp add: for_each_row split: prod.splits option.splits)
qed

lemma cell_step_frame:
  "shape (tile_array (cell_step g rs k pf)) = shape (tile_array pf)"
  "length (data (tile_array (cell_step g rs k pf))) = length (data (tile_array pf))"
  "empty_tile_img (cell_step g rs k pf) = empty_tile_img pf"
  "spawn_row (cell_step g rs k pf) = spawn_row pf"
  "spawn_column (cell_step g rs k pf) = spawn_column pf"
  by (simp_all add: cell_step_def)

lemma cells_done_0: "cells_done g rs 0 pf = pf"
  by (simp add: cells_done_def)

lemma cells_done_Suc:
  assumes "n < length (data (tile_array pf))"
  shows "cell_step g rs n (cells_done g rs n pf) = cells_done g rs (Suc n) pf"
proof -
  let ?d = "data (tile_array pf)"
  have len: "length (map g (take n ?d)) = n" using assms by simp
  have nth: "(map g (take n ?d) @ drop n ?d) ! n = ?d ! n"
    using assms by (simp add: nth_append)
  have upd: "(map g (take n ?d) @ drop n ?d)[n := g (?d ! n)]
      = map g (take (Suc n) ?d) @ drop (Suc n) ?d"
    using assms
    by (simp add: list_update_append take_Suc_conv_app_nth Cons_nth_drop_Suc [symmetric])
  have rects: "concat (map rs (take (Suc n) ?d)) = concat (map rs (take n ?d)) @ rs (?d ! n)"
    using assms by (simp add: take_Suc_conv_app_nth)
  show ?thesis
    by (simp add: cell_step_def cells_done_def nth upd rects)
qed

lemma cell_loop:
  "n \<le> length (data (tile_array pf)) \<Longrightarrow>
   for_each (\<lambda>k s. (None, cell_step g rs k s)) [0..<n] pf = (None, cells_done g rs n pf)"
proof (induction n)
  case 0
  then show ?case by (simp add: cells_done_0)
next
  case (Suc n)
  then show ?case
    by (simp add: for_each_append cells_done_Suc)
qed

lemma blyt_cell:
  "getitem (tile_array pf) row column = Inr k \<Longrightarrow>
   blyt column row srf pf = (None, cell_step (blit_tile srf) (\<lambda>t. [surface t srf]) k pf)"
  by (simp add: blyt_Inr cell_step_def blit_tile_def)

lemma clear_tile_cell:
  assumes "getitem (tile_array pf) row column = Inr k" and "k < length (data (tile_array pf))"
  shows "clear_tile row column pf =
     (None, cell_step (cleared_tile (empty_tile_img pf))
              (\<lambda>t. if is_empty t then [] else [surface t (empty_tile_img pf)]) k pf)"
proof (cases "is_empty (data (tile_array pf) ! k)")
  case True
  then show ?thesis
    using assms by (simp add: clear_tile_def cell_step_def cleared_tile_def)
next
  case False
  let ?t = "data (tile_array pf) ! k"
  let ?pf1 = "pf\<lparr>tile_array := (tile_array pf)\<lparr>data := (data (tile_array pf))[k := ?t\<lparr>hold := []\<rparr>]\<rparr>\<rparr>"
  have g1: "getitem (tile_array ?pf1) row column = Inr k"
    using assms(1) by (simp add: getitem_def)
  have "clear_tile row column pf = blyt column row (empty_tile_img pf) ?pf1"
    using False assms(1) by (simp add: clear_tile_def Let_def)
  also have "\<dots> = (None, cell_step (cleared_tile (empty_tile_img pf))
              (\<lambda>t. if is_empty t then [] else [surface t (empty_tile_img pf)]) k pf)"
    using False assms(2) by (simp add: blyt_Inr [OF g1] cell_step_def cleared_tile_def)
  finally show ?thesis .
qed


lemma flat_index_div_mod:
  fixes k rows columns :: nat
  assumes "k < rows * columns"
  shows "k div columns < rows" "k mod columns < columns" "k div columns * columns + k mod columns = k"
proof -
  have pos: "0 < columns" using assms by (cases columns) auto
  show "k div columns < rows" using assms pos by (simp add: less_mult_imp_div_less)
  show "k mod columns < columns" using pos by simp
  show "k div columns * columns + k mod columns = k" by simp
qed

lemma getitem_flat:
  assumes "shape arr = (rows, columns)" "k < rows * columns"
  shows "getitem arr (int (k div columns)) (int (k mod columns)) = Inr k"
  using getitem_nat [OF assms(1) flat_index_div_mod(1,2) [OF assms(2)]]
    flat_index_div_mod(3) [OF assms(2)] by simp

lemma blit_initial_images_result:
  fixes pf :: "('i, 'r) Playfield"
  assumes "well_formed pf"
  shows "blit_initial_images img pf =
     (None, cells_done (blit_tile img) (\<lambda>t. [surface t img]) (length (data (tile_array pf))) pf)"
proof -
  obtain rows columns where sh: "shape (tile_array pf) = (rows, columns)"
    by (cases "shape (tile_array pf)")
  have len: "length (data (tile_array pf)) = rows * columns"
    using assms sh by (simp add: well_formed_def)
  have "blit_initial_images img pf =
      for_each (\<lambda>k. blyt (int (k mod columns)) (int (k div columns)) img) [0..<rows * columns] pf"
    by (simp add: blit_initial_images_def sh nested_loops_flat)
  also have "\<dots> = for_each (\<lambda>k s. (None, cell_step (blit_tile img) (\<lambda>t. [surface t img]) k s))
      [0..<rows * columns] pf"
  proof (rule for_each_cong_inv [where I = "\<lambda>s. shape (tile_array s) = (rows, columns)"])
    show "shape (tile_array pf) = (rows, columns)" by (rule sh)
  next
    fix k and s :: "('i, 'r) Playfield"
    assume "k \<in> set [0..<rows * columns]" and "shape (tile_array s) = (rows, columns)"
    then show "blyt (int (k mod columns)) (int (k div columns)) img s
        = (None, cell_step (blit_tile img) (\<lambda>t. [surface t img]) k s)"
      by (intro blyt_cell getitem_flat) simp_all
  next
    fix k e and s s' :: "('i, 'r) Playfield"
    assume "shape (tile_array s) = (rows, columns)"
      and "(None, cell_step (blit_tile img) (\<lambda>t. [surface t img]) k s) = (e, s')"
    then show "shape (tile_array s') = (rows, columns)"
      by (auto simp: cell_step_frame)
  qed
  also have "\<dots> = (None, cells_done (blit_tile img) (\<lambda>t. [surface t img]) (rows * columns) pf)"
    by (rule cell_loop) (simp add: len)
  finally show ?thesis by (simp add: len)
qed

lemma clear_all_tiles_result:
  fixes pf :: "('i, 'r) Playfield"
  assumes "well_formed pf"
  shows "clear_all_tiles pf =
     (None, cells_done (cleared_tile (empty_tile_img pf))
              (\<lambda>t. if is_empty t then [] else [surface t (empty_tile_img pf)])
              (length (data (tile_array pf))) pf)"
proof -
  let ?bg = "empty_tile_img pf"
  let ?g = "cleared_tile ?bg"
  let ?rs = "\<lambda>t. if is_empty t then [] else [surface t ?bg]"
  obtain rows columns where sh: "shape (tile_array pf) = (rows, columns)"
    by (cases "shape (tile_array pf)")
  have len: "length (data (tile_array pf)) = rows * columns"
    using assms sh by (simp add: well_formed_def)
  let ?I = "\<lambda>s. shape (tile_array s) = (rows, columns)
      \<and> length (data (tile_array s)) = rows * columns \<and> empty_tile_img s = ?bg"
  have "clear_all_tiles pf =
      for_each (\<lambda>k. clear_tile (int (k div columns)) (int (k mod columns))) [0..<rows * columns] pf"
    by (simp add: clear_all_tiles_def sh nested_loops_flat)
  also have "\<dots> = for_each (\<lambda>k s. (None, cell_step ?g ?rs k s)) [0..<rows * columns] pf"
  proof (rule for_each_cong_inv [where I = ?I])
    show "?I pf" by (simp add: sh len)
  next
    fix k and s :: "('i, 'r) Playfield"
    assume k: "k \<in> set [0..<rows * columns]" and I: "?I s"
    have "getitem (tile_array s) (int (k div columns)) (int (k mod columns)) = Inr k"
      using k I by (intro getitem_flat) simp_all
    moreover have "k < length (data (tile_array s))" using k I by simp
    moreover have bg: "empty_tile_img s = ?bg" using I by simp
    ultimately show "clear_tile (int (k div columns)) (int (k mod columns)) s
        = (None, cell_step ?g ?rs k s)"
      using clear_tile_cell [of s "int (k div columns)" "int (k mod columns)" k]
      unfolding bg by simp
  next
    fix k e and s s' :: "('i, 'r) Playfield"
    assume "?I s" and "(None, cell_step ?g ?rs k s) = (e, s')"
    then show "?I s'"
      by (auto simp: cell_step_frame)
  qed
  also have "\<dots> = (None, cells_done ?g ?rs (rows * columns) pf)"
    by (rule cell_loop) (simp add: len)
  finally show ?thesis by (simp add: len)
qed

subsection \<open>Reshaping\<close>

lemma array_fits_bounds:
  assumes "0 \<le> rows" and "0 \<le> columns" and "array_fits rows columns"
  shows "rows \<le> intp_max" and "columns \<le> intp_max" and "rows * columns \<le> intp_max"
proof -
  define a where "a = (if rows = 0 then 1 else rows)"
  define b where "b = (if columns = 0 then 1 else columns)"
  have a: "1 \<le> a" "rows \<le> a" and b: "1 \<le> b" "columns \<le> b"
    using assms(1,2) by (auto simp: a_def b_def)
  have fits: "8 * (a * b) \<le> intp_max"
    using assms(3) by (simp add: array_fits_def item_size_def a_def b_def mult.assoc)
  have ab: "0 \<le> a * b" using a b by simp
  have "a * 1 \<le> a * b" using a b by (intro mult_left_mono) simp_all
  then have "a \<le> intp_max" using fits ab by simp
  then show "rows \<le> intp_max" using a by simp
  have "1 * b \<le> a * b" using a b by (intro mult_right_mono) simp_all
  then have "b \<le> intp_max" using fits ab by simp
  then show "columns \<le> intp_max" using b by simp
  have "rows * columns \<le> a * b"
    using a b assms(1,2) by (intro mult_mono) simp_all
  then show "rows * columns \<le> intp_max" using fits ab by simp
qed

lemma reshape_nonneg:
  assumes "0 \<le> rows" and "0 \<le> columns"
  shows "reshape xs rows columns =
     (if int (length xs) = rows * columns \<and> array_fits rows columns
      then Inr \<lparr>shape = (nat rows, nat columns), data = xs\<rparr> else Inl ValueError)"
proof (cases "array_fits rows columns")
  case True
  have "intp_max = 2 ^ 63 - 1" by (simp add: intp_max_def)
  then have neg: "\<not> rows < - intp_max - 1" "\<not> columns < - intp_max - 1"
    using assms by simp_all
  show ?thesis
    using assms True array_fits_bounds [OF assms True] neg
    by (simp add: reshape_def new_array_def Let_def)
next
  case False
  then show ?thesis
    using assms by (simp add: reshape_def new_array_def Let_def)
qed

lemma reshape_Inl: "reshape xs rows columns = Inl e \<Longrightarrow> e = ValueError"
  by (auto simp: reshape_def new_array_def Let_def split: if_splits)

lemma inferred_dimension:
  fixes n d :: int
  assumes "0 \<le> n" "0 < d" "n mod d = 0"
  shows "nat (n div d) * nat d = nat n"
proof -
  have "n div d * d = n" using assms(3) by (simp add: mod_0_imp_dvd)
  moreover have "0 \<le> n div d" using assms by (simp add: pos_imp_zdiv_nonneg_iff)
  ultimately show ?thesis using assms(2)
    by (metis less_imp_le nat_mult_distrib)
qed

lemma new_array_Inr:
  "new_array xs rows columns = Inr arr \<Longrightarrow> arr = \<lparr>shape = (nat rows, nat columns), data = xs\<rparr>"
  by (auto simp: new_array_def split: if_splits)

lemma reshape_cases:
  assumes "reshape xs rows columns = Inr arr"
  shows "(rows < 0 \<and> 0 < columns \<and> int (length xs) mod columns = 0
            \<and> arr = \<lparr>shape = (nat (int (length xs) div columns), nat columns), data = xs\<rparr>)
     \<or> (columns < 0 \<and> 0 < rows \<and> int (length xs) mod rows = 0
            \<and> arr = \<lparr>shape = (nat rows, nat (int (length xs) div rows)), data = xs\<rparr>)
     \<or> (0 \<le> rows \<and> 0 \<le> columns \<and> int (length xs) = rows * columns
            \<and> arr = \<lparr>shape = (nat rows, nat columns), data = xs\<rparr>)"
  using assms
  by (auto simp: reshape_def Let_def split: if_splits dest!: new_array_Inr)

lemma reshape_Inr:
  assumes "reshape xs rows columns = Inr arr"
  shows "data arr = xs" and "length xs = fst (shape arr) * snd (shape arr)"
proof -
  note cases = reshape_cases [OF assms]
  show "data arr = xs"
    using cases by auto
  have n: "nat (int (length xs)) = length xs" by simp
  consider (rows) "rows < 0" "0 < columns" "int (length xs) mod columns = 0"
      "shape arr = (nat (int (length xs) div columns), nat columns)"
    | (columns) "columns < 0" "0 < rows" "int (length xs) mod rows = 0"
      "shape arr = (nat rows, nat (int (length xs) div rows))"
    | (both) "0 \<le> rows" "0 \<le> columns" "int (length xs) = rows * columns"
      "shape arr = (nat rows, nat columns)"
    using cases by auto
  then show "length xs = fst (shape arr) * snd (shape arr)"
  proof cases
    case rows
    show ?thesis using inferred_dimension [OF _ rows(2,3)] by (simp add: rows(4))
  next
    case columns
    show ?thesis using inferred_dimension [OF _ columns(2,3)] by (simp add: columns(4) mult.commute)
  next
    case both
    have "nat (int (length xs)) = nat rows * nat columns"
      unfolding both(3) using both(1) by (simp add: nat_mult_distrib)
    then show ?thesis by (simp add: both(4))
  qed
qed

lemma concat_map_single: "concat (map (\<lambda>t. [f t]) xs) = map f xs"
  by (induction xs) simp_all

lemma Playfield_init_Inr:
  assumes "reshape sequence rows columns = Inr arr"
  shows "Playfield_init rows columns sequence img rects sp_row sp_column =
     Inr \<lparr>empty_tile_img = img,
          tile_array = \<lparr>shape = shape arr, data = map (blit_tile img) sequence\<rparr>,
          rects_to_update = fold appendr (map (\<lambda>t. surface t img) sequence) rects,
          spawn_column = sp_column, spawn_row = sp_row\<rparr>"
proof -
  let ?pf0 = "\<lparr>empty_tile_img = img, tile_array = arr, rects_to_update = rects,
                 spawn_column = sp_column, spawn_row = sp_row\<rparr>"
  have wf: "well_formed ?pf0"
    using reshape_Inr [OF assms] by (simp add: well_formed_def)
  have arr: "arr = \<lparr>shape = shape arr, data = sequence\<rparr>"
    using reshape_Inr(1) [OF assms] by (cases arr) simp
  show ?thesis
    unfolding Playfield_init_def assms
    by (simp add: blit_initial_images_result [OF wf] cells_done_def reshape_Inr(1) [OF assms]
        concat_map_single)
qed

lemma Playfield_init_Inl:
  "reshape sequence rows columns = Inl e \<Longrightarrow>
   Playfield_init rows columns sequence img rects sp_row sp_column = Inl e"
  by (simp add: Playfield_init_def)

subsection \<open>Construction\<close>

lemma array_fits_small: "array_fits 2 3" "array_fits 2 2"
  by (simp_all add: array_fits_def item_size_def intp_max_def)

text \<open>
  C3 (as the specification states it, refuted): with \<open>rows = -1\<close> and \<open>columns = 2\<close>
  a sequence of 4 tiles, whose length is not \<open>rows * columns = -2\<close>, is accepted:
  numpy infers the negative dimension and the grid is 2 by 2.
\<close>

theorem reshape_infers_negative_dimension_counterexample:
  "int (length (example_tiles 4)) \<noteq> (- 1) * 2
   \<and> \<not> isl (Playfield_init (- 1) 2 (example_tiles 4) ''bg'' Rectlist_init 3 4)
   \<and> shape (tile_array (projr (Playfield_init (- 1) 2 (example_tiles 4) ''bg'' Rectlist_init 3 4)))
       = (2, 2)"
proof -
  have "reshape (example_tiles 4) (- 1) 2 = Inr \<lparr>shape = (2, 2), data = example_tiles 4\<rparr>"
    by (simp add: reshape_def new_array_def array_fits_small intp_max_def example_tiles_def)
  from Playfield_init_Inr [OF this] show ?thesis
    by (simp add: example_tiles_def)
qed

text \<open>
  C3 (amended): for all \<open>rows \<ge> 0\<close> and \<open>columns \<ge> 0\<close>, construction fails with
  ValueError (the specification's ShapeMismatch) for every tile sequence whose length is
  not \<open>rows * columns\<close>, and also for a shape beyond numpy's array-size limit (8 bytes
  times the product of the non-zero dimensions above \<open>2^63 - 1\<close>, as for
  \<open>rows = 2^63 - 1\<close>, \<open>columns = 0\<close> and no tiles); for a sequence of exactly
  \<open>rows * columns\<close> tiles and a shape within that limit it succeeds and yields a grid
  of shape \<open>rows\<close> by \<open>columns\<close> that holds exactly the tiles of the sequence,
  neither truncated nor padded, in row-major order: the tile at \<open>[r, c]\<close> is the one
  at position \<open>r * columns + c\<close> of the sequence.
\<close>

theorem Playfield_init_shape:
  assumes "0 \<le> rows" and "0 \<le> columns"
  shows "(int (length sequence) \<noteq> rows * columns \<or> \<not> array_fits rows columns \<longrightarrow>
            Playfield_init rows columns sequence img rects sp_row sp_column = Inl ValueError)
     \<and> (int (length sequence) = rows * columns \<and> array_fits rows columns \<longrightarrow>
          (\<exists>pf. Playfield_init rows columns sequence img rects sp_row sp_column = Inr pf
             \<and> shape (tile_array pf) = (nat rows, nat columns)
             \<and> length (data (tile_array pf)) = length sequence
             \<and> map surface (data (tile_array pf)) = map surface sequence
             \<and> (\<forall>r c. r < nat rows \<longrightarrow> c < nat columns \<longrightarrow>
                   getitem (tile_array pf) (int r) (int c) = Inr (r * nat columns + c)
                   \<and> r * nat columns + c < length sequence
                   \<and> surface (data (tile_array pf) ! (r * nat columns + c))
                       = surface (sequence ! (r * nat columns + c)))))"
proof (intro conjI impI)
  assume "int (length sequence) \<noteq> rows * columns \<or> \<not> array_fits rows columns"
  then have "reshape sequence rows columns = Inl ValueError"
    unfolding reshape_nonneg [OF assms] by auto
  then show "Playfield_init rows columns sequence img rects sp_row sp_column = Inl ValueError"
    by (rule Playfield_init_Inl)
next
  assume len: "int (length sequence) = rows * columns \<and> array_fits rows columns"
  let ?arr = "\<lparr>shape = (nat rows, nat columns), data = sequence\<rparr>"
  have r: "reshape sequence rows columns = Inr ?arr"
    unfolding reshape_nonneg [OF assms] using len by simp
  have n: "length sequence = nat rows * nat columns"
    using reshape_Inr(2) [OF r] by simp
  let ?pf = "\<lparr>empty_tile_img = img,
          tile_array = \<lparr>shape = shape ?arr, data = map (blit_tile img) sequence\<rparr>,
          rects_to_update = fold appendr (map (\<lambda>t. surface t img) sequence) rects,
          spawn_column = sp_column, spawn_row = sp_row\<rparr>"
  have init: "Playfield_init rows columns sequence img rects sp_row sp_column = Inr ?pf"
    by (rule Playfield_init_Inr [OF r])
  have cells: "getitem (tile_array ?pf) (int r) (int c) = Inr (r * nat columns + c)
      \<and> r * nat columns + c < length sequence
      \<and> surface (data (tile_array ?pf) ! (r * nat columns + c))
           = surface (sequence ! (r * nat columns + c))"
    if "r < nat rows" "c < nat columns" for r c
  proof -
    have k: "r * nat columns + c < length sequence"
      unfolding n using that by (rule flat_index_less)
    show ?thesis
      using that k by (simp add: getitem_nat blit_tile_def)
  qed
  have "shape (tile_array ?pf) = (nat rows, nat columns)
      \<and> length (data (tile_array ?pf)) = length sequence
      \<and> map surface (data (tile_array ?pf)) = map surface sequence"
    by (simp add: blit_tile_def)
  then show "\<exists>pf. Playfield_init rows columns sequence img rects sp_row sp_column = Inr pf
             \<and> shape (tile_array pf) = (nat rows, nat columns)
             \<and> length (data (tile_array pf)) = length sequence
             \<and> map surface (data (tile_array pf)) = map surface sequence
             \<and> (\<forall>r c. r < nat rows \<longrightarrow> c < nat columns \<longrightarrow>
                   getitem (tile_array pf) (int r) (int c) = Inr (r * nat columns + c)
                   \<and> r * nat columns + c < length sequence
                   \<and> surface (data (tile_array pf) ! (r * nat columns + c))
                       = surface (sequence ! (r * nat columns + c)))"
    using init cells by blast
qed

theorem Playfield_init_shape_witness:
  "Playfield_init 2 3 (example_tiles 5) ''bg'' Rectlist_init 3 4 = Inl ValueError
   \<and> Playfield_init 9223372036854775807 0 (example_tiles 0) ''bg'' Rectlist_init 3 4
       = Inl ValueError
   \<and> (\<exists>pf. Playfield_init 2 3 (example_tiles 6) ''bg'' Rectlist_init 3 4 = Inr pf
        \<and> shape (tile_array pf) = (2, 3)
        \<and> getitem (tile_array pf) 1 2 = Inr 5
        \<and> surface (data (tile_array pf) ! 5) = surface (example_tiles 6 ! 5))"
proof -
  have five: "int (length (example_tiles 5)) \<noteq> 2 * 3"
    and six: "int (length (example_tiles 6)) = 2 * 3"
    by (simp_all add: example_tiles_def)
  have big: "\<not> array_fits 9223372036854775807 0"
    by (simp add: array_fits_def item_size_def intp_max_def)
  have fails: "Playfield_init 2 3 (example_tiles 5) ''bg'' Rectlist_init 3 4 = Inl ValueError"
    using Playfield_init_shape [of 2 3 "example_tiles 5" "''bg''" Rectlist_init 3 4] five by simp
  have too_big: "Playfield_init 9223372036854775807 0 (example_tiles 0) ''bg'' Rectlist_init 3 4
      = Inl ValueError"
    using Playfield_init_shape [of 9223372036854775807 0 "example_tiles 0" "''bg''" Rectlist_init 3 4]
      big by simp
  obtain pf where init: "Playfield_init 2 3 (example_tiles 6) ''bg'' Rectlist_init 3 4 = Inr pf"
    and sh: "shape (tile_array pf) = (nat 2, nat 3)"
    and cells: "\<forall>r c. r < nat 2 \<longrightarrow> c < nat 3 \<longrightarrow>
                   getitem (tile_array pf) (int r) (int c) = Inr (r * nat 3 + c)
                   \<and> r * nat 3 + c < length (example_tiles 6)
                   \<and> surface (data (tile_array pf) ! (r * nat 3 + c))
                       = surface (example_tiles 6 ! (r * nat 3 + c))"
    using Playfield_init_shape [of 2 3 "example_tiles 6" "''bg''" Rectlist_init 3 4] six
      array_fits_small(1) by auto
  have "getitem (tile_array pf) 1 2 = Inr 5
      \<and> surface (data (tile_array pf) ! 5) = surface (example_tiles 6 ! 5)"
    using cells [rule_format, of 1 2] by simp
  then show ?thesis using fails too_big init sh by simp
qed

text \<open>
  C4: constructing a playfield of \<open>rows * columns\<close> tiles on a fresh tracker succeeds
  for all \<open>rows \<ge> 0\<close> and \<open>columns \<ge> 0\<close> within numpy's array-size limit, and
  whenever it succeeds it leaves \<open>rows * columns\<close> pending rectangles,
  \<open>added_items = rows * columns\<close> and \<open>max_items = rows * columns\<close>; the drain of
  the main loop then completes, hands over the pending rectangles and leaves none
  pending with both counters unchanged; and draining the emptied tracker again
  completes, hands over the empty sequence and changes nothing.
\<close>

theorem tracker_after_construction:
  assumes "int (length sequence) = rows * columns"
  shows "(0 \<le> rows \<and> 0 \<le> columns \<and> array_fits rows columns \<longrightarrow>
            (\<exists>pf. Playfield_init rows columns sequence img Rectlist_init sp_row sp_column = Inr pf))
     \<and> (\<forall>pf. Playfield_init rows columns sequence img Rectlist_init sp_row sp_column = Inr pf \<longrightarrow>
          int (length (items (rects_to_update pf))) = rows * columns
          \<and> int (added_items (rects_to_update pf)) = rows * columns
          \<and> int (max_items (rects_to_update pf)) = rows * columns
          \<and> (\<exists>rl'. drain (rects_to_update pf) = (items (rects_to_update pf), None, rl')
               \<and> items rl' = []
               \<and> added_items rl' = added_items (rects_to_update pf)
               \<and> max_items rl' = max_items (rects_to_update pf)
               \<and> drain rl' = ([], None, rl')))"
proof (rule conjI)
  show "0 \<le> rows \<and> 0 \<le> columns \<and> array_fits rows columns \<longrightarrow>
      (\<exists>pf. Playfield_init rows columns sequence img Rectlist_init sp_row sp_column = Inr pf)"
  proof
    assume "0 \<le> rows \<and> 0 \<le> columns \<and> array_fits rows columns"
    then have "reshape sequence rows columns
        = Inr \<lparr>shape = (nat rows, nat columns), data = sequence\<rparr>"
      using assms by (simp add: reshape_nonneg)
    from Playfield_init_Inr [OF this]
    show "\<exists>pf. Playfield_init rows columns sequence img Rectlist_init sp_row sp_column = Inr pf"
      by blast
  qed
next
  show "\<forall>pf. Playfield_init rows columns sequence img Rectlist_init sp_row sp_column = Inr pf \<longrightarrow>
          int (length (items (rects_to_update pf))) = rows * columns
          \<and> int (added_items (rects_to_update pf)) = rows * columns
          \<and> int (max_items (rects_to_update pf)) = rows * columns
          \<and> (\<exists>rl'. drain (rects_to_update pf) = (items (rects_to_update pf), None, rl')
               \<and> items rl' = []
               \<and> added_items rl' = added_items (rects_to_update pf)
               \<and> max_items rl' = max_items (rects_to_update pf)
               \<and> drain rl' = ([], None, rl'))"
  proof (rule allI, rule impI)
  fix pf
  assume init: "Playfield_init rows columns sequence img Rectlist_init sp_row sp_column = Inr pf"
  let ?rl = "fold appendr (map (\<lambda>t. surface t img) sequence) Rectlist_init"
  obtain arr where r: "reshape sequence rows columns = Inr arr"
    using init Playfield_init_Inl [of sequence rows columns _ img Rectlist_init sp_row sp_column]
    by (cases "reshape sequence rows columns") auto
  have tracker: "rects_to_update pf = ?rl"
    using init Playfield_init_Inr [OF r, of img Rectlist_init sp_row sp_column] by auto
  have rl: "items ?rl = map (\<lambda>t. surface t img) sequence"
      "added_items ?rl = length sequence" "max_items ?rl = length sequence"
    by (simp_all add: fold_appendr Rectlist_init_def)
  have counts: "int (length (items ?rl)) = rows * columns"
      "int (added_items ?rl) = rows * columns" "int (max_items ?rl) = rows * columns"
    using assms by (simp_all add: rl)
  have d1: "drain ?rl = (items ?rl, None, ?rl\<lparr>items := []\<rparr>)"
    by (rule drain_result)
  have d2: "drain (?rl\<lparr>items := []\<rparr>) = ([], None, ?rl\<lparr>items := []\<rparr>)"
    using drain_result [of "?rl\<lparr>items := []\<rparr>"] by simp
  have "\<exists>rl'. drain ?rl = (items ?rl, None, rl')
          \<and> items rl' = [] \<and> added_items rl' = added_items ?rl
          \<and> max_items rl' = max_items ?rl \<and> drain rl' = ([], None, rl')"
    using d1 d2 by (intro exI [of _ "?rl\<lparr>items := []\<rparr>"]) simp
  then show "int (length (items (rects_to_update pf))) = rows * columns
          \<and> int (added_items (rects_to_update pf)) = rows * columns
          \<and> int (max_items (rects_to_update pf)) = rows * columns
          \<and> (\<exists>rl'. drain (rects_to_update pf) = (items (rects_to_update pf), None, rl')
               \<and> items rl' = []
               \<and> added_items rl' = added_items (rects_to_update pf)
               \<and> max_items rl' = max_items (rects_to_update pf)
               \<and> drain rl' = ([], None, rl'))"
    unfolding tracker using counts by simp
  qed
qed

theorem tracker_after_construction_witness:
  "\<exists>pf. Playfield_init 2 3 (example_tiles 6) ''bg'' Rectlist_init 3 4 = Inr pf
     \<and> length (items (rects_to_update pf)) = 6
     \<and> added_items (rects_to_update pf) = 6
     \<and> max_items (rects_to_update pf) = 6
     \<and> fst (snd (drain (rects_to_update pf))) = None
     \<and> items (snd (snd (drain (rects_to_update pf)))) = []
     \<and> added_items (snd (snd (drain (rects_to_update pf)))) = 6
     \<and> max_items (snd (snd (drain (rects_to_update pf)))) = 6"
proof -
  have "int (length (example_tiles 6)) = 2 * 3"
    by (simp add: example_tiles_def)
  from tracker_after_construction [OF this, of "''bg''" 3 4] array_fits_small(1)
  show ?thesis by fastforce
qed

subsection \<open>Sequences of blits\<close>

lemma isr_iff: "\<not> isl x \<longleftrightarrow> (\<exists>k. x = Inr k)"
  by (cases x) simp_all

lemma blyts_effect:
  fixes pf :: "('i, 'r) Playfield"
  assumes "well_formed pf" and "\<forall>b \<in> set bs. in_grid pf b"
  shows "\<exists>pf'. blyts bs pf = (None, pf')
     \<and> shape (tile_array pf') = shape (tile_array pf)
     \<and> length (data (tile_array pf')) = length (data (tile_array pf))
     \<and> empty_tile_img pf' = empty_tile_img pf
     \<and> spawn_row pf' = spawn_row pf \<and> spawn_column pf' = spawn_column pf
     \<and> (\<forall>k. surface (data (tile_array pf') ! k) = surface (data (tile_array pf) ! k))
     \<and> (\<forall>k < length (data (tile_array pf)).
           hold (data (tile_array pf') ! k)
             = hold (data (tile_array pf) ! k) @ blits_onto (tile_array pf) k bs)
     \<and> items (rects_to_update pf') = items (rects_to_update pf) @ map (rect_of_blit pf) bs
     \<and> added_items (rects_to_update pf') = added_items (rects_to_update pf) + length bs"
  using assms
proof (induction bs arbitrary: pf)
  case Nil
  then show ?case by (simp add: blyts_def blits_onto_def)
next
  case (Cons b bs)
  obtain column row srf where b: "b = (column, row, srf)" by (cases b)
  obtain k0 where k0: "getitem (tile_array pf) row column = Inr k0"
    using Cons.prems(2) b by (auto simp: in_grid_def isr_iff)
  have k0_len: "k0 < length (data (tile_array pf))"
    using getitem_Inr [OF k0] Cons.prems(1) by (simp add: well_formed_def)
  let ?pf1 = "cell_step (blit_tile srf) (\<lambda>t. [surface t srf]) k0 pf"
  have step: "blyt column row srf pf = (None, ?pf1)"
    by (rule blyt_cell [OF k0])
  have sh1: "shape (tile_array ?pf1) = shape (tile_array pf)"
    and len1: "length (data (tile_array ?pf1)) = length (data (tile_array pf))"
    by (simp_all add: cell_step_frame)
  have get1: "getitem (tile_array ?pf1) r c = getitem (tile_array pf) r c" for r c
    by (rule getitem_shape [OF sh1])
  have wf1: "well_formed ?pf1"
    using Cons.prems(1) by (simp add: well_formed_def sh1 len1)
  have grid1: "\<forall>b \<in> set bs. in_grid ?pf1 b"
    using Cons.prems(2) by (auto simp: in_grid_def get1)
  have surf1: "surface (data (tile_array ?pf1) ! k) = surface (data (tile_array pf) ! k)" for k
    using k0_len by (cases "k = k0") (simp_all add: cell_step_def blit_tile_def)
  have hold1: "hold (data (tile_array ?pf1) ! k)
      = hold (data (tile_array pf) ! k) @ (if k = k0 then [srf] else [])" for k
    using k0_len by (cases "k = k0") (simp_all add: cell_step_def blit_tile_def)
  have rects1: "rects_to_update ?pf1
      = appendr (surface (data (tile_array pf) ! k0) srf) (rects_to_update pf)"
    by (simp add: cell_step_def)
  have rect_of1: "rect_of_blit ?pf1 = rect_of_blit pf"
    by (rule ext) (simp add: rect_of_blit_def get1 surf1 split: prod.splits)
  have onto1: "blits_onto (tile_array ?pf1) k bs = blits_onto (tile_array pf) k bs" for k
    by (simp add: blits_onto_def get1)
  obtain pf' where run: "blyts bs ?pf1 = (None, pf')"
    and sh: "shape (tile_array pf') = shape (tile_array ?pf1)"
    and len: "length (data (tile_array pf')) = length (data (tile_array ?pf1))"
    and bg: "empty_tile_img pf' = empty_tile_img ?pf1"
    and sp: "spawn_row pf' = spawn_row ?pf1" "spawn_column pf' = spawn_column ?pf1"
    and surf: "\<forall>k. surface (data (tile_array pf') ! k) = surface (data (tile_array ?pf1) ! k)"
    and holds: "\<forall>k < length (data (tile_array ?pf1)).
           hold (data (tile_array pf') ! k)
             = hold (data (tile_array ?pf1) ! k) @ blits_onto (tile_array ?pf1) k bs"
    and its: "items (rects_to_update pf')
        = items (rects_to_update ?pf1) @ map (rect_of_blit ?pf1) bs"
    and added: "added_items (rects_to_update pf')
        = added_items (rects_to_update ?pf1) + length bs"
    using Cons.IH [OF wf1 grid1] by blast
  have run': "blyts (b # bs) pf = (None, pf')"
    using run step by (simp add: blyts_def b)
  have onto_b: "blits_onto (tile_array pf) k (b # bs)
      = (if k = k0 then [srf] else []) @ blits_onto (tile_array pf) k bs" for k
    by (auto simp: blits_onto_def b k0)
  have rect_b: "rect_of_blit pf b = surface (data (tile_array pf) ! k0) srf"
    by (simp add: rect_of_blit_def b k0)
  show ?case
  proof (intro exI [of _ pf'] conjI allI impI)
    show "blyts (b # bs) pf = (None, pf')" by (rule run')
    show "shape (tile_array pf') = shape (tile_array pf)" by (simp add: sh sh1)
    show "length (data (tile_array pf')) = length (data (tile_array pf))" by (simp add: len len1)
    show "empty_tile_img pf' = empty_tile_img pf" by (simp add: bg cell_step_frame)
    show "spawn_row pf' = spawn_row pf" by (simp add: sp cell_step_frame)
    show "spawn_column pf' = spawn_column pf" by (simp add: sp cell_step_frame)
    show "surface (data (tile_array pf') ! k) = surface (data (tile_array pf) ! k)" for k
      by (simp add: surf surf1)
    show "hold (data (tile_array pf') ! k)
        = hold (data (tile_array pf) ! k) @ blits_onto (tile_array pf) k (b # bs)"
      if "k < length (data (tile_array pf))" for k
      using holds that by (simp add: len1 hold1 onto1 onto_b)
    show "items (rects_to_update pf')
        = items (rects_to_update pf) @ map (rect_of_blit pf) (b # bs)"
      by (simp add: its rects1 appendr_fields rect_of1 rect_b)
    show "added_items (rects_to_update pf')
        = added_items (rects_to_update pf) + length (b # bs)"
      by (simp add: added rects1 appendr_fields)
  qed
qed


subsection \<open>Blits\<close>

text \<open>
  C2 (as the specification states it, refuted): on a playfield of 2 rows and 3 columns,
  \<^verbatim>\<open>blyt(-1, 0, img)\<close> and \<^verbatim>\<open>blyt(rows, 0, img)\<close> both complete; each blits
  onto the tile in row 0, column 2 (position 2), whose hold grows, and appends a
  rectangle to the tracker.
\<close>

theorem blyt_negative_index_counterexample:
  "fst (blyt (- 1) 0 ''x'' (example_playfield 2 3)) = None
   \<and> hold (data (tile_array (snd (blyt (- 1) 0 ''x'' (example_playfield 2 3)))) ! 2) = [''bg'', ''x'']
   \<and> hold (data (tile_array (example_playfield 2 3)) ! 2) = [''bg'']
   \<and> items (rects_to_update (snd (blyt (- 1) 0 ''x'' (example_playfield 2 3)))) = [(2, ''x'')]
   \<and> items (rects_to_update (example_playfield 2 3)) = []
   \<and> fst (blyt 2 0 ''x'' (example_playfield 2 3)) = None
   \<and> hold (data (tile_array (snd (blyt 2 0 ''x'' (example_playfield 2 3)))) ! 2) = [''bg'', ''x'']"
  by (simp add: blyt_def getitem_def norm_index_def example_playfield_def Rectlist_init_def
      appendr_def update_max_def Let_def numeral_2_eq_2)

text \<open>
  C2 (amended): on a playfield of shape \<open>rows\<close> by \<open>columns\<close>, a blit whose row is
  outside \<open>[-rows, rows)\<close> or whose column is outside \<open>[-columns, columns)\<close> fails
  with IndexError (the specification's OutOfBounds) and leaves the grid and the tracker
  as they were; every other blit completes, a negative index counting from the end. So
  \<^verbatim>\<open>blyt(rows, 0, img)\<close> fails this way when \<open>columns \<le> rows\<close>, and
  \<^verbatim>\<open>blyt(-1, 0, img)\<close> when the grid has no row or no column.
\<close>

theorem blyt_out_of_range:
  assumes "shape (tile_array pf) = (rows, columns)"
  shows "(row < - int rows \<or> int rows \<le> row \<or> column < - int columns \<or> int columns \<le> column
            \<longrightarrow> blyt column row srf pf = (Some IndexError, pf))
     \<and> (- int rows \<le> row \<and> row < int rows \<and> - int columns \<le> column \<and> column < int columns
            \<longrightarrow> fst (blyt column row srf pf) = None)
     \<and> (columns \<le> rows \<longrightarrow> blyt (int rows) 0 srf pf = (Some IndexError, pf))
     \<and> (rows = 0 \<or> columns = 0 \<longrightarrow> blyt (- 1) 0 srf pf = (Some IndexError, pf))"
proof -
  have out: "blyt c r srf pf = (Some IndexError, pf)"
    if "r < - int rows \<or> int rows \<le> r \<or> c < - int columns \<or> int columns \<le> c" for r c
    using that getitem_Inl [OF assms, of r c IndexError] by (intro blyt_Inl) simp
  have "fst (blyt column row srf pf) = None"
    if "- int rows \<le> row \<and> row < int rows \<and> - int columns \<le> column \<and> column < int columns"
  proof (cases "getitem (tile_array pf) row column")
    case (Inl e)
    then show ?thesis using that getitem_Inl [OF assms, of row column e] by simp
  next
    case (Inr k)
    then show ?thesis by (simp add: blyt_Inr)
  qed
  moreover have "blyt (int rows) 0 srf pf = (Some IndexError, pf)" if "columns \<le> rows"
    using that by (intro out) simp
  moreover have "blyt (- 1) 0 srf pf = (Some IndexError, pf)" if "rows = 0 \<or> columns = 0"
    using that by (intro out) auto
  ultimately show ?thesis using out [of row column] by blast
qed

theorem blyt_out_of_range_witness:
  "blyt 3 0 ''x'' (example_playfield 2 3) = (Some IndexError, example_playfield 2 3)
   \<and> blyt 0 (- 3) ''x'' (example_playfield 2 3) = (Some IndexError, example_playfield 2 3)
   \<and> fst (blyt (- 3) 1 ''x'' (example_playfield 2 3)) = None
   \<and> blyt (int 2) 0 ''x'' (example_playfield 2 2) = (Some IndexError, example_playfield 2 2)
   \<and> blyt (- 1) 0 ''x'' (example_playfield 0 3) = (Some IndexError, example_playfield 0 3)"
proof -
  have s23: "shape (tile_array (example_playfield 2 3)) = (2, 3)"
    and s22: "shape (tile_array (example_playfield 2 2)) = (2, 2)"
    and s03: "shape (tile_array (example_playfield 0 3)) = (0, 3)"
    by (simp_all add: example_playfield_def)
  show ?thesis
    using blyt_out_of_range [OF s23, of 0 3 "''x''"] blyt_out_of_range [OF s23, of "- 3" 0 "''x''"]
      blyt_out_of_range [OF s23, of 1 "- 3" "''x''"] blyt_out_of_range [OF s22, of 0 0 "''x''"]
      blyt_out_of_range [OF s03, of 0 0 "''x''"]
    by simp
qed


lemma is_empty_iff: "is_empty t \<longleftrightarrow> length (hold t) \<le> 1"
  by (simp add: is_empty_def)

text \<open>
  C8: after any sequence of blits that address cells of the grid, with no clear in
  between, the hold of a tile is its hold before followed by the images blitted onto
  that tile, so its length is the initial length plus the number \<open>N\<close> of those blits;
  \<open>is_empty\<close> is true exactly when the hold has at most one entry, so on a tile that
  held only its background it is false exactly when \<open>N > 0\<close>.
\<close>

theorem hold_after_blits:
  fixes pf :: "('i, 'r) Playfield"
  assumes "well_formed pf" and "\<forall>b \<in> set bs. in_grid pf b"
    and "k < length (data (tile_array pf))"
  shows "\<exists>pf'. blyts bs pf = (None, pf')
     \<and> hold (data (tile_array pf') ! k)
         = hold (data (tile_array pf) ! k) @ blits_onto (tile_array pf) k bs
     \<and> length (hold (data (tile_array pf') ! k))
         = length (hold (data (tile_array pf) ! k)) + length (blits_onto (tile_array pf) k bs)
     \<and> (is_empty (data (tile_array pf') ! k) \<longleftrightarrow> length (hold (data (tile_array pf') ! k)) \<le> 1)
     \<and> (is_empty (data (tile_array pf) ! k) \<longleftrightarrow> length (hold (data (tile_array pf) ! k)) \<le> 1)
     \<and> (length (hold (data (tile_array pf) ! k)) = 1 \<longrightarrow>
          (is_empty (data (tile_array pf') ! k) \<longleftrightarrow> blits_onto (tile_array pf) k bs = []))"
proof -
  obtain pf' where run: "blyts bs pf = (None, pf')"
    and holds: "\<forall>k < length (data (tile_array pf)).
           hold (data (tile_array pf') ! k)
             = hold (data (tile_array pf) ! k) @ blits_onto (tile_array pf) k bs"
    using blyts_effect [OF assms(1,2)] by blast
  have h: "hold (data (tile_array pf') ! k)
      = hold (data (tile_array pf) ! k) @ blits_onto (tile_array pf) k bs"
    using holds assms(3) by simp
  have "length (hold (data (tile_array pf) ! k)) = 1 \<longrightarrow>
      (is_empty (data (tile_array pf') ! k) \<longleftrightarrow> blits_onto (tile_array pf) k bs = [])"
    by (simp add: is_empty_iff h)
  then show ?thesis
    using run h by (intro exI [of _ pf']) (simp add: is_empty_iff)
qed

theorem hold_after_blits_witness:
  "\<exists>pf'. blyts [(1, 0, ''a''), (2, 1, ''b''), (- 2, - 2, ''c'')] (example_playfield 2 3) = (None, pf')
     \<and> hold (data (tile_array pf') ! 1) = [''bg'', ''a'', ''c'']
     \<and> \<not> is_empty (data (tile_array pf') ! 1)
     \<and> is_empty (data (tile_array (example_playfield 2 3)) ! 1)"
proof -
  let ?bs = "[(1, 0, ''a''), (2, 1, ''b''), (- 2, - 2, ''c'')] :: (int \<times> int \<times> string) list"
  have wf: "well_formed (example_playfield 2 3)"
    by (simp add: well_formed_def example_playfield_def)
  have grid: "\<forall>b \<in> set ?bs. in_grid (example_playfield 2 3) b"
    by (simp add: in_grid_def getitem_def norm_index_def example_playfield_def)
  have k: "1 < length (data (tile_array (example_playfield 2 3)))"
    by (simp add: example_playfield_def)
  have onto: "blits_onto (tile_array (example_playfield 2 3)) 1 ?bs = [''a'', ''c'']"
    by (simp add: blits_onto_def getitem_def norm_index_def example_playfield_def)
  have before: "hold (data (tile_array (example_playfield 2 3)) ! 1) = [''bg'']"
    by (simp add: example_playfield_def)
  from hold_after_blits [OF wf grid k] show ?thesis
    unfolding onto before by (auto simp: is_empty_iff)
qed


lemma blyt_frame:
  assumes "blyt column row srf pf = (e, pf')"
  shows "spawn_row pf' = spawn_row pf" "spawn_column pf' = spawn_column pf"
    "empty_tile_img pf' = empty_tile_img pf" "shape (tile_array pf') = shape (tile_array pf)"
    "length (data (tile_array pf')) = length (data (tile_array pf))"
  using assms by (auto simp: blyt_def Let_def split: sum.splits)

lemma draw_tetromino_blyts:
  fixes pf :: "('i, 'r) Playfield"
  shows "draw_tetromino t pf = blyts (placements pf t) pf"
proof -
  let ?I = "\<lambda>s :: ('i, 'r) Playfield. spawn_row s = spawn_row pf \<and> spawn_column s = spawn_column pf"
  let ?g = "\<lambda>mino. blyt (spawn_column pf + mino_column mino)
                     (spawn_row pf + mino_row mino + spawn_offset t) (tetromino_img t)"
  have "draw_tetromino t pf = for_each ?g (minoes t) pf"
    unfolding draw_tetromino_def
  proof (rule for_each_cong_inv [where I = ?I])
    show "?I pf" by simp
  next
    fix mino and s :: "('i, 'r) Playfield"
    assume "?I s"
    then show "blyt (spawn_column s + mino_column mino)
        (spawn_row s + mino_row mino + spawn_offset t) (tetromino_img t) s = ?g mino s"
      by simp
  next
    fix mino e and s s' :: "('i, 'r) Playfield"
    assume "?I s" and "?g mino s = (e, s')"
    then show "?I s'" using blyt_frame(1,2) [of _ _ _ s e s'] by simp
  qed
  also have "\<dots> = blyts (placements pf t) pf"
    by (simp add: blyts_def placements_def for_each_map)
  finally show ?thesis .
qed

lemma blits_onto_same_image:
  "blits_onto arr k (map (\<lambda>m. (c m, r m, img)) ms)
     = replicate (length (filter (\<lambda>m. getitem arr (r m) (c m) = Inr k) ms)) img"
  by (induction ms) (simp_all add: blits_onto_def)

lemma blits_onto_placements:
  "blits_onto (tile_array pf) k (placements pf t)
     = replicate (length (minoes_at pf t k)) (tetromino_img t)"
  by (simp add: placements_def minoes_at_def blits_onto_same_image)

lemma draw_tetromino_effect:
  fixes pf :: "('i, 'r) Playfield"
  assumes "well_formed pf" and "\<forall>b \<in> set (placements pf t). in_grid pf b"
  shows "\<exists>pf'. draw_tetromino t pf = (None, pf')
     \<and> (\<forall>k < length (data (tile_array pf)).
           hold (data (tile_array pf') ! k)
             = hold (data (tile_array pf) ! k) @ replicate (length (minoes_at pf t k)) (tetromino_img t))
     \<and> items (rects_to_update pf')
         = items (rects_to_update pf) @ map (rect_of_blit pf) (placements pf t)
     \<and> length (items (rects_to_update pf'))
         = length (items (rects_to_update pf)) + length (minoes t)
     \<and> added_items (rects_to_update pf') = added_items (rects_to_update pf) + length (minoes t)"
proof -
  obtain pf' where run: "blyts (placements pf t) pf = (None, pf')"
    and holds: "\<forall>k < length (data (tile_array pf)).
           hold (data (tile_array pf') ! k)
             = hold (data (tile_array pf) ! k) @ blits_onto (tile_array pf) k (placements pf t)"
    and its: "items (rects_to_update pf')
        = items (rects_to_update pf) @ map (rect_of_blit pf) (placements pf t)"
    and added: "added_items (rects_to_update pf')
        = added_items (rects_to_update pf) + length (placements pf t)"
    using blyts_effect [OF assms] by blast
  have n: "length (placements pf t) = length (minoes t)"
    by (simp add: placements_def)
  show ?thesis
    using run holds its added
    by (intro exI [of _ pf']) (simp add: draw_tetromino_blyts blits_onto_placements n)
qed


lemma I_piece_cells:
  fixes pf :: "('i, 'r) Playfield"
  assumes wf: "well_formed pf" and grid: "\<forall>b \<in> set (placements pf t). in_grid pf b"
    and I: "minoes t = I_minoes" "spawn_offset t = 0" "spawn_row pf = 3" "spawn_column pf = 4"
    and c: "c \<in> {4, 5, 6, 7}"
  shows "\<exists>k. getitem (tile_array pf) 3 (int c) = Inr k \<and> k < length (data (tile_array pf))
     \<and> length (minoes_at pf t k) = 1"
proof -
  obtain rows columns where sh: "shape (tile_array pf) = (rows, columns)"
    by (cases "shape (tile_array pf)")
  have "(7, 3, tetromino_img t) \<in> set (placements pf t)"
    by (simp add: placements_def I I_minoes_def)
  then have "\<not> isl (getitem (tile_array pf) 3 7)"
    using grid by (auto simp: in_grid_def)
  then have "getitem (tile_array pf) 3 7 \<noteq> Inl IndexError"
    by (cases "getitem (tile_array pf) 3 7") simp_all
  then have bounds: "3 < rows" "7 < columns"
    using getitem_Inl [OF sh, of 3 7 IndexError] by simp_all
  have g: "getitem (tile_array pf) 3 4 = Inr (3 * columns + 4)"
      "getitem (tile_array pf) 3 5 = Inr (3 * columns + 5)"
      "getitem (tile_array pf) 3 6 = Inr (3 * columns + 6)"
      "getitem (tile_array pf) 3 7 = Inr (3 * columns + 7)"
    using getitem_nat [OF sh, of 3 4] getitem_nat [OF sh, of 3 5]
      getitem_nat [OF sh, of 3 6] getitem_nat [OF sh, of 3 7] bounds by simp_all
  have len: "length (data (tile_array pf)) = rows * columns"
    using wf sh by (simp add: well_formed_def)
  have k: "3 * columns + c < length (data (tile_array pf))"
    unfolding len using bounds c by (intro flat_index_less) auto
  have "getitem (tile_array pf) 3 (int c) = Inr (3 * columns + c)"
    using c g by auto
  moreover have "length (minoes_at pf t (3 * columns + c)) = 1"
    using c by (auto simp: minoes_at_def I I_minoes_def g)
  ultimately show ?thesis using k by blast
qed

lemma getitem_Inl_IndexError: "getitem arr row column = Inl e \<Longrightarrow> e = IndexError"
  by (auto simp: getitem_def norm_index_def split: prod.splits sum.splits if_splits)

lemma blyts_off_grid:
  fixes pf :: "('i, 'r) Playfield"
  assumes "\<exists>b \<in> set bs. \<not> in_grid pf b"
  shows "fst (blyts bs pf) = Some IndexError"
  using assms
proof (induction bs arbitrary: pf)
  case Nil
  then show ?case by simp
next
  case (Cons b bs)
  obtain column row srf where b: "b = (column, row, srf)" by (cases b)
  show ?case
  proof (cases "getitem (tile_array pf) row column")
    case (Inl e)
    then show ?thesis
      using getitem_Inl_IndexError [OF Inl] by (simp add: blyts_def b blyt_Inl)
  next
    case (Inr k)
    let ?pf1 = "cell_step (blit_tile srf) (\<lambda>t. [surface t srf]) k pf"
    have step: "blyt column row srf pf = (None, ?pf1)"
      by (rule blyt_cell [OF Inr])
    have same: "in_grid ?pf1 b' = in_grid pf b'" for b'
      by (simp add: in_grid_def getitem_def cell_step_frame split: prod.splits)
    have "in_grid pf b"
      using Inr by (simp add: in_grid_def b)
    then have "\<exists>b' \<in> set bs. \<not> in_grid ?pf1 b'"
      using Cons.prems by (auto simp: same)
    then have "fst (blyts bs ?pf1) = Some IndexError"
      by (rule Cons.IH)
    then show ?thesis
      using step by (simp add: blyts_def b)
  qed
qed

lemma example_playfield_simps:
  "shape (tile_array (example_playfield rows columns)) = (rows, columns)"
  "length (data (tile_array (example_playfield rows columns))) = rows * columns"
  "k < rows * columns \<Longrightarrow> hold (data (tile_array (example_playfield rows columns)) ! k) = [''bg'']"
  "k < rows * columns \<Longrightarrow> surface (data (tile_array (example_playfield rows columns)) ! k) = Pair k"
  "empty_tile_img (example_playfield rows columns) = ''bg''"
  "spawn_row (example_playfield rows columns) = 3"
  "spawn_column (example_playfield rows columns) = 4"
  "rects_to_update (example_playfield rows columns) = Rectlist_init"
  "well_formed (example_playfield rows columns)"
  by (simp_all add: example_playfield_def well_formed_def)

text \<open>
  C1 (as the specification states it, refuted): on a playfield of 4 rows and 6 columns
  with the spawn anchor at row 3, column 4, drawing the I piece raises IndexError at
  its third mino, whose column 6 is outside the grid: two rectangles were appended,
  not four, and only the tiles at positions 22 and 23 were blitted.
\<close>

theorem draw_tetromino_off_grid_counterexample:
  "fst (draw_tetromino example_I_piece (example_playfield 4 6)) = Some IndexError
   \<and> length (items (rects_to_update
        (snd (draw_tetromino example_I_piece (example_playfield 4 6))))) = 2
   \<and> map hold (drop 20 (data (tile_array
        (snd (draw_tetromino example_I_piece (example_playfield 4 6))))))
       = [[''bg''], [''bg''], [''bg'', ''I''], [''bg'', ''I'']]"
proof -
  let ?pf = "example_playfield 4 6"
  have data: "data (tile_array ?pf) =
      map (\<lambda>k. \<lparr>surface = Pair k, hold = [''bg'']\<rparr>) [0..<20]
      @ [\<lparr>surface = Pair 20, hold = [''bg'']\<rparr>, \<lparr>surface = Pair 21, hold = [''bg'']\<rparr>,
         \<lparr>surface = Pair 22, hold = [''bg'']\<rparr>, \<lparr>surface = Pair 23, hold = [''bg'']\<rparr>]"
  proof -
    have "[0..<24] = [0..<20] @ [20, 21, 22, 23]"
      by (simp add: upt_rec [of 20] upt_rec [of 21] upt_rec [of 22] upt_rec [of 23]
          upt_add_eq_append [of 0 20 4, simplified])
    then show ?thesis
      by (simp add: example_playfield_def)
  qed
  have get: "getitem (tile_array ?pf) 3 4 = Inr 22" "getitem (tile_array ?pf) 3 5 = Inr 23"
      "getitem (tile_array ?pf) 3 6 = Inl IndexError"
    by (simp_all add: getitem_def norm_index_def example_playfield_simps)
  define pf1 where "pf1 = snd (blyt 4 3 ''I'' ?pf)"
  have b1: "blyt 4 3 ''I'' ?pf = (None, pf1)"
    unfolding pf1_def by (simp add: blyt_Inr [OF get(1)])
  have sh1: "shape (tile_array pf1) = (4, 6)"
    using blyt_frame(4) [OF b1] by (simp add: example_playfield_simps)
  have sp1: "spawn_row pf1 = 3" "spawn_column pf1 = 4"
    using blyt_frame(1,2) [OF b1] by (simp_all add: example_playfield_simps)
  have get1: "getitem (tile_array pf1) 3 5 = Inr 23"
    by (simp add: getitem_def norm_index_def sh1)
  define pf2 where "pf2 = snd (blyt 5 3 ''I'' pf1)"
  have b2: "blyt 5 3 ''I'' pf1 = (None, pf2)"
    unfolding pf2_def by (simp add: blyt_Inr [OF get1])
  have sh2: "shape (tile_array pf2) = (4, 6)"
    using blyt_frame(4) [OF b2] by (simp add: sh1)
  have sp2: "spawn_row pf2 = 3" "spawn_column pf2 = 4"
    using blyt_frame(1,2) [OF b2] by (simp_all add: sp1)
  have get2: "getitem (tile_array pf2) 3 6 = Inl IndexError"
    by (simp add: getitem_def norm_index_def sh2)
  have b3: "blyt 6 3 ''I'' pf2 = (Some IndexError, pf2)"
    by (rule blyt_Inl [OF get2])
  have run: "draw_tetromino example_I_piece ?pf = (Some IndexError, pf2)"
    by (simp add: draw_tetromino_def example_I_piece_def I_minoes_def example_playfield_simps
        b1 sp1 b2 sp2 b3)
  have d1: "data (tile_array pf1) =
      map (\<lambda>k. \<lparr>surface = Pair k, hold = [''bg'']\<rparr>) [0..<20]
      @ [\<lparr>surface = Pair 20, hold = [''bg'']\<rparr>, \<lparr>surface = Pair 21, hold = [''bg'']\<rparr>,
         \<lparr>surface = Pair 22, hold = [''bg'', ''I'']\<rparr>, \<lparr>surface = Pair 23, hold = [''bg'']\<rparr>]"
    unfolding pf1_def by (simp add: blyt_Inr [OF get(1)] data list_update_append nth_append)
  have r1: "length (items (rects_to_update pf1)) = 1"
    unfolding pf1_def
    by (simp add: blyt_Inr [OF get(1)] appendr_fields example_playfield_simps Rectlist_init_def)
  have rects: "length (items (rects_to_update pf2)) = 2"
    unfolding pf2_def by (simp add: blyt_Inr [OF get1] appendr_fields r1)
  have d2: "data (tile_array pf2) =
      map (\<lambda>k. \<lparr>surface = Pair k, hold = [''bg'']\<rparr>) [0..<20]
      @ [\<lparr>surface = Pair 20, hold = [''bg'']\<rparr>, \<lparr>surface = Pair 21, hold = [''bg'']\<rparr>,
         \<lparr>surface = Pair 22, hold = [''bg'', ''I'']\<rparr>, \<lparr>surface = Pair 23, hold = [''bg'', ''I'']\<rparr>]"
    unfolding pf2_def by (simp add: blyt_Inr [OF get1] d1 list_update_append nth_append)
  show ?thesis
    by (simp add: run rects d2)
qed

text \<open>
  C1 (amended): \<open>draw_tetromino\<close> is the sequence of blits of the piece's image at
  column \<open>spawn_column + mino.column\<close>, row \<open>spawn_row + mino.row + spawn_offset\<close>,
  one for each mino in turn. When each of these indices is in the grid (row in
  \<open>[-rows, rows)\<close>, column in \<open>[-columns, columns)\<close>, a negative index counting
  from the end of its axis), it completes: every tile's hold gains the image once for
  each mino whose index denotes it, and the tracker gains one rectangle for each mino.
  When one of them is outside the grid, it raises IndexError. For the I piece with no
  spawn offset and the spawn anchor at row 3, column 4 on a grid that contains its four
  cells, each of the tiles at \<open>(3,4)\<close>, \<open>(3,5)\<close>, \<open>(3,6)\<close>, \<open>(3,7)\<close> gains
  exactly one entry and the tracker exactly 4 rectangles.
\<close>

theorem draw_tetromino_places:
  fixes pf :: "('i, 'r) Playfield"
  assumes "well_formed pf"
  shows "draw_tetromino t pf = blyts (placements pf t) pf
     \<and> ((\<exists>b \<in> set (placements pf t). \<not> in_grid pf b) \<longrightarrow>
          fst (draw_tetromino t pf) = Some IndexError)
     \<and> ((\<forall>b \<in> set (placements pf t). in_grid pf b) \<longrightarrow>
          (\<exists>pf'. draw_tetromino t pf = (None, pf')
             \<and> (\<forall>k < length (data (tile_array pf)).
                   hold (data (tile_array pf') ! k)
                     = hold (data (tile_array pf) ! k)
                       @ replicate (length (minoes_at pf t k)) (tetromino_img t))
             \<and> items (rects_to_update pf')
                 = items (rects_to_update pf) @ map (rect_of_blit pf) (placements pf t)
             \<and> length (items (rects_to_update pf'))
                 = length (items (rects_to_update pf)) + length (minoes t)
             \<and> (minoes t = I_minoes \<and> spawn_offset t = 0 \<and> spawn_row pf = 3
                   \<and> spawn_column pf = 4 \<longrightarrow>
                  (\<forall>c \<in> {4, 5, 6, 7}. \<exists>k. getitem (tile_array pf) 3 (int c) = Inr k
                      \<and> hold (data (tile_array pf') ! k)
                          = hold (data (tile_array pf) ! k) @ [tetromino_img t])
                  \<and> length (items (rects_to_update pf'))
                      = length (items (rects_to_update pf)) + 4)))"
proof (intro conjI impI)
  show "draw_tetromino t pf = blyts (placements pf t) pf"
    by (rule draw_tetromino_blyts)
next
  assume "\<exists>b \<in> set (placements pf t). \<not> in_grid pf b"
  then show "fst (draw_tetromino t pf) = Some IndexError"
    unfolding draw_tetromino_blyts by (rule blyts_off_grid)
next
  assume grid: "\<forall>b \<in> set (placements pf t). in_grid pf b"
  obtain pf' where run: "draw_tetromino t pf = (None, pf')"
    and holds: "\<forall>k < length (data (tile_array pf)).
           hold (data (tile_array pf') ! k)
             = hold (data (tile_array pf) ! k) @ replicate (length (minoes_at pf t k)) (tetromino_img t)"
    and its: "items (rects_to_update pf')
         = items (rects_to_update pf) @ map (rect_of_blit pf) (placements pf t)"
    and len: "length (items (rects_to_update pf'))
         = length (items (rects_to_update pf)) + length (minoes t)"
    using draw_tetromino_effect [OF assms grid] by blast
  have I_part: "(\<forall>c \<in> {4, 5, 6, 7}. \<exists>k. getitem (tile_array pf) 3 (int c) = Inr k
              \<and> hold (data (tile_array pf') ! k) = hold (data (tile_array pf) ! k) @ [tetromino_img t])
          \<and> length (items (rects_to_update pf')) = length (items (rects_to_update pf)) + 4"
    if I: "minoes t = I_minoes \<and> spawn_offset t = 0 \<and> spawn_row pf = 3 \<and> spawn_column pf = 4"
  proof (intro conjI ballI)
    fix c :: nat
    assume c: "c \<in> {4, 5, 6, 7}"
    obtain k where g: "getitem (tile_array pf) 3 (int c) = Inr k"
      and k: "k < length (data (tile_array pf))" and one: "length (minoes_at pf t k) = 1"
      using I_piece_cells [OF assms grid _ _ _ _ c] I by blast
    have "hold (data (tile_array pf') ! k) = hold (data (tile_array pf) ! k) @ [tetromino_img t]"
      using holds k one by simp
    then show "\<exists>k. getitem (tile_array pf) 3 (int c) = Inr k
        \<and> hold (data (tile_array pf') ! k) = hold (data (tile_array pf) ! k) @ [tetromino_img t]"
      using g by blast
  next
    show "length (items (rects_to_update pf')) = length (items (rects_to_update pf)) + 4"
      using len I by (simp add: I_minoes_def)
  qed
  show "\<exists>pf'. draw_tetromino t pf = (None, pf')
             \<and> (\<forall>k < length (data (tile_array pf)).
                   hold (data (tile_array pf') ! k)
                     = hold (data (tile_array pf) ! k)
                       @ replicate (length (minoes_at pf t k)) (tetromino_img t))
             \<and> items (rects_to_update pf')
                 = items (rects_to_update pf) @ map (rect_of_blit pf) (placements pf t)
             \<and> length (items (rects_to_update pf'))
                 = length (items (rects_to_update pf)) + length (minoes t)
             \<and> (minoes t = I_minoes \<and> spawn_offset t = 0 \<and> spawn_row pf = 3
                   \<and> spawn_column pf = 4 \<longrightarrow>
                  (\<forall>c \<in> {4, 5, 6, 7}. \<exists>k. getitem (tile_array pf) 3 (int c) = Inr k
                      \<and> hold (data (tile_array pf') ! k)
                          = hold (data (tile_array pf) ! k) @ [tetromino_img t])
                  \<and> length (items (rects_to_update pf'))
                      = length (items (rects_to_update pf)) + 4)"
    using run holds its len I_part by (intro exI [of _ pf']) simp
qed

theorem draw_tetromino_places_witness:
  "(\<exists>pf'. draw_tetromino example_I_piece (example_playfield 24 10) = (None, pf')
     \<and> hold (data (tile_array pf') ! 34) = [''bg'', ''I'']
     \<and> hold (data (tile_array pf') ! 35) = [''bg'', ''I'']
     \<and> hold (data (tile_array pf') ! 36) = [''bg'', ''I'']
     \<and> hold (data (tile_array pf') ! 37) = [''bg'', ''I'']
     \<and> length (items (rects_to_update pf')) = 4)
   \<and> fst (draw_tetromino example_I_piece (example_playfield 4 6)) = Some IndexError"
proof -
  let ?pf = "example_playfield 24 10"
  have g: "getitem (tile_array ?pf) 3 (int 4) = Inr 34" "getitem (tile_array ?pf) 3 (int 5) = Inr 35"
      "getitem (tile_array ?pf) 3 (int 6) = Inr 36" "getitem (tile_array ?pf) 3 (int 7) = Inr 37"
    by (simp_all add: getitem_def norm_index_def example_playfield_simps)
  have grid: "\<forall>b \<in> set (placements ?pf example_I_piece). in_grid ?pf b"
    using g by (simp add: placements_def example_I_piece_def I_minoes_def in_grid_def
        example_playfield_simps)
  have I: "minoes example_I_piece = I_minoes \<and> spawn_offset example_I_piece = 0
      \<and> spawn_row ?pf = 3 \<and> spawn_column ?pf = 4"
    by (simp add: example_I_piece_def example_playfield_simps)
  obtain pf' where run: "draw_tetromino example_I_piece ?pf = (None, pf')"
    and cells: "\<forall>c \<in> {4, 5, 6, 7}. \<exists>k. getitem (tile_array ?pf) 3 (int c) = Inr k
        \<and> hold (data (tile_array pf') ! k)
            = hold (data (tile_array ?pf) ! k) @ [tetromino_img example_I_piece]"
    and len: "length (items (rects_to_update pf')) = length (items (rects_to_update ?pf)) + 4"
    using draw_tetromino_places [OF example_playfield_simps(9), of example_I_piece 24 10] grid I
    by blast
  have "hold (data (tile_array pf') ! 34) = [''bg'', ''I'']"
      "hold (data (tile_array pf') ! 35) = [''bg'', ''I'']"
      "hold (data (tile_array pf') ! 36) = [''bg'', ''I'']"
      "hold (data (tile_array pf') ! 37) = [''bg'', ''I'']"
    using cells g by (auto simp: example_playfield_simps example_I_piece_def)
  then have first: "\<exists>pf'. draw_tetromino example_I_piece ?pf = (None, pf')
     \<and> hold (data (tile_array pf') ! 34) = [''bg'', ''I'']
     \<and> hold (data (tile_array pf') ! 35) = [''bg'', ''I'']
     \<and> hold (data (tile_array pf') ! 36) = [''bg'', ''I'']
     \<and> hold (data (tile_array pf') ! 37) = [''bg'', ''I'']
     \<and> length (items (rects_to_update pf')) = 4"
    using run len by (simp add: example_playfield_simps Rectlist_init_def)
  have "(6, 3, ''I'') \<in> set (placements (example_playfield 4 6) example_I_piece)"
    by (simp add: placements_def example_I_piece_def I_minoes_def example_playfield_simps)
  moreover have "\<not> in_grid (example_playfield 4 6) (6, 3, ''I'')"
    by (simp add: in_grid_def getitem_def norm_index_def example_playfield_simps)
  ultimately have "\<exists>b \<in> set (placements (example_playfield 4 6) example_I_piece).
      \<not> in_grid (example_playfield 4 6) b"
    by blast
  then have "fst (draw_tetromino example_I_piece (example_playfield 4 6)) = Some IndexError"
    using draw_tetromino_places [OF example_playfield_simps(9), of example_I_piece 4 6] by blast
  then show ?thesis using first by simp
qed

subsection \<open>Reachable playfields and clearing\<close>

lemma cell_step_tiles:
  assumes "\<forall>t \<in> set (data (tile_array pf)). P t"
    and "k < length (data (tile_array pf)) \<Longrightarrow> P (g (data (tile_array pf) ! k))"
  shows "\<forall>t \<in> set (data (tile_array (cell_step g rs k pf))). P t"
proof (cases "k < length (data (tile_array pf))")
  case True
  then show ?thesis
    using assms set_update_subset_insert [of "data (tile_array pf)" k "g (data (tile_array pf) ! k)"]
    by (auto simp: cell_step_def)
next
  case False
  then show ?thesis using assms(1) by (simp add: cell_step_def list_update_beyond)
qed

lemma well_formed_cell_step: "well_formed pf \<Longrightarrow> well_formed (cell_step g rs k pf)"
  by (simp add: well_formed_def cell_step_frame)

lemma blyt_preserves:
  fixes pf :: "('i, 'r) Playfield"
  assumes "well_formed pf \<and> stamped pf" and "blyt column row srf pf = (e, pf')"
  shows "well_formed pf' \<and> stamped pf'"
proof (cases "getitem (tile_array pf) row column")
  case (Inl err)
  then show ?thesis using assms by (simp add: blyt_Inl)
next
  case (Inr k)
  have pf': "pf' = cell_step (blit_tile srf) (\<lambda>t. [surface t srf]) k pf"
    using assms(2) blyt_cell [OF Inr, of srf] by simp
  have "\<forall>t \<in> set (data (tile_array pf')).
      hold t \<noteq> [] \<and> (is_empty t \<longrightarrow> hold t = [empty_tile_img pf])"
    unfolding pf'
  proof (rule cell_step_tiles)
    show "\<forall>t \<in> set (data (tile_array pf)).
        hold t \<noteq> [] \<and> (is_empty t \<longrightarrow> hold t = [empty_tile_img pf])"
      using assms(1) by (simp add: stamped_def)
  next
    assume "k < length (data (tile_array pf))"
    then have "hold (data (tile_array pf) ! k) \<noteq> []"
      using assms(1) by (simp add: stamped_def)
    then show "hold (blit_tile srf (data (tile_array pf) ! k)) \<noteq> []
        \<and> (is_empty (blit_tile srf (data (tile_array pf) ! k))
            \<longrightarrow> hold (blit_tile srf (data (tile_array pf) ! k)) = [empty_tile_img pf])"
      by (cases "hold (data (tile_array pf) ! k)") (simp_all add: blit_tile_def is_empty_def)
  qed
  then have "stamped pf'"
    by (simp add: stamped_def pf' cell_step_frame)
  then show ?thesis
    using assms(1) by (simp add: pf' well_formed_cell_step)
qed

lemma cells_done_all:
  "cells_done g rs (length (data (tile_array pf))) pf =
     pf\<lparr>rects_to_update := fold appendr (concat (map rs (data (tile_array pf)))) (rects_to_update pf),
        tile_array := (tile_array pf)\<lparr>data := map g (data (tile_array pf))\<rparr>\<rparr>"
  by (simp add: cells_done_def)

lemma clear_all_tiles_preserves:
  fixes pf :: "('i, 'r) Playfield"
  assumes "well_formed pf \<and> stamped pf" and "clear_all_tiles pf = (e, pf')"
  shows "well_formed pf' \<and> stamped pf'"
proof -
  have wf: "well_formed pf" using assms(1) by simp
  have pf': "pf' = pf\<lparr>rects_to_update := fold appendr
          (concat (map (\<lambda>t. if is_empty t then [] else [surface t (empty_tile_img pf)])
             (data (tile_array pf)))) (rects_to_update pf),
        tile_array := (tile_array pf)\<lparr>data :=
          map (cleared_tile (empty_tile_img pf)) (data (tile_array pf))\<rparr>\<rparr>"
    using assms(2) unfolding clear_all_tiles_result [OF wf] cells_done_all by simp
  have "well_formed pf'"
    using wf by (simp add: pf' well_formed_def)
  moreover have "stamped pf'"
    using assms(1) by (auto simp: pf' stamped_def cleared_tile_def is_empty_def)
  ultimately show ?thesis by simp
qed

lemma reachable_invariant:
  fixes pf :: "('i, 'r) Playfield"
  assumes "reachable pf"
  shows "well_formed pf \<and> stamped pf"
  using assms
proof (induction rule: reachable.induct)
  case (constructed rows columns sequence img rects sp_row sp_column pf)
  show ?case
  proof (cases "reshape sequence rows columns")
    case (Inl e)
    then show ?thesis
      using constructed Playfield_init_Inl [OF Inl, of img rects sp_row sp_column] by simp
  next
    case (Inr arr)
    have pf: "pf = \<lparr>empty_tile_img = img,
          tile_array = \<lparr>shape = shape arr, data = map (blit_tile img) sequence\<rparr>,
          rects_to_update = fold appendr (map (\<lambda>t. surface t img) sequence) rects,
          spawn_column = sp_column, spawn_row = sp_row\<rparr>"
      using constructed Playfield_init_Inr [OF Inr, of img rects sp_row sp_column] by simp
    have "well_formed pf"
      using reshape_Inr(2) [OF Inr] by (simp add: pf well_formed_def)
    moreover have "stamped pf"
      by (auto simp: pf stamped_def blit_tile_def is_empty_def)
    ultimately show ?thesis by simp
  qed
next
  case (blitted pf column row srf e pf')
  show ?case by (rule blyt_preserves [OF blitted.IH blitted.hyps(2)])
next
  case (cleared pf e pf')
  show ?case by (rule clear_all_tiles_preserves [OF cleared.IH cleared.hyps(2)])
next
  case (drawn pf tetromino e pf')
  show ?case
  proof (rule for_each_invariant [where I = "\<lambda>s. well_formed s \<and> stamped s"])
    show "for_each
       (\<lambda>mino pf. blyt (spawn_column pf + mino_column mino)
                     (spawn_row pf + mino_row mino + spawn_offset tetromino)
                     (tetromino_img tetromino) pf)
       (minoes tetromino) pf = (e, pf')"
      using drawn.hyps(2) by (simp add: draw_tetromino_def)
    show "well_formed pf \<and> stamped pf" by (rule drawn.IH)
  next
    fix mino e1 and s s' :: "('i, 'r) Playfield"
    assume "well_formed s \<and> stamped s"
      and "blyt (spawn_column s + mino_column mino)
             (spawn_row s + mino_row mino + spawn_offset tetromino) (tetromino_img tetromino) s
           = (e1, s')"
    then show "well_formed s' \<and> stamped s'" by (rule blyt_preserves)
  qed
next
  case (tracker_changed pf rects)
  then show ?case by (simp add: well_formed_def stamped_def)
qed


lemma is_empty_cleared_tile: "is_empty (cleared_tile bg t)"
  by (simp add: cleared_tile_def is_empty_def)

lemma cleared_tile_empty: "is_empty t \<Longrightarrow> cleared_tile bg t = t"
  by (simp add: cleared_tile_def)

lemma cleared_tile_idem: "cleared_tile bg (cleared_tile bg t) = cleared_tile bg t"
  by (rule cleared_tile_empty [OF is_empty_cleared_tile])

lemma example_playfield_reachable:
  assumes "array_fits (int rows) (int columns)"
  shows "reachable (example_playfield rows columns)"
proof -
  let ?n = "rows * columns"
  have "reshape (example_tiles ?n) (int rows) (int columns)
      = Inr \<lparr>shape = (rows, columns), data = example_tiles ?n\<rparr>"
    using assms by (simp add: reshape_nonneg example_tiles_def)
  from Playfield_init_Inr [OF this, of "''bg''" Rectlist_init 3 4]
  have "reachable \<lparr>empty_tile_img = ''bg'',
          tile_array = \<lparr>shape = (rows, columns), data = map (blit_tile ''bg'') (example_tiles ?n)\<rparr>,
          rects_to_update = fold appendr (map (\<lambda>t. surface t ''bg'') (example_tiles ?n)) Rectlist_init,
          spawn_column = 4, spawn_row = 3\<rparr>"
    by (intro reachable.constructed) simp
  from reachable.tracker_changed [OF this, of Rectlist_init]
  show ?thesis
    by (simp add: example_playfield_def example_tiles_def blit_tile_def Tile_init_def comp_def)
qed

lemma example_playfield_2_3_reachable: "reachable (example_playfield 2 3)"
  using array_fits_small(1) by (intro example_playfield_reachable) simp

text \<open>
  C7: on every reachable playfield, \<open>clear_all_tiles\<close> completes and leaves every
  tile with \<open>hold = [background]\<close>: a tile that holds more than its first image is
  reset and stamped again with the background, a tile that holds only its first image,
  which is the background, is skipped. A second call in a row completes and changes
  nothing: no tile's hold, and the tracker gets no rectangle.
\<close>

theorem clear_all_tiles_idempotent:
  fixes pf :: "('i, 'r) Playfield"
  assumes "reachable pf"
  shows "\<exists>pf1. clear_all_tiles pf = (None, pf1)
     \<and> data (tile_array pf1) = map (cleared_tile (empty_tile_img pf)) (data (tile_array pf))
     \<and> (\<forall>t \<in> set (data (tile_array pf1)). hold t = [empty_tile_img pf])
     \<and> clear_all_tiles pf1 = (None, pf1)"
proof -
  let ?bg = "empty_tile_img pf"
  let ?rs = "\<lambda>t. if is_empty t then [] else [surface t ?bg]"
  let ?pf1 = "pf\<lparr>rects_to_update := fold appendr (concat (map ?rs (data (tile_array pf))))
          (rects_to_update pf),
        tile_array := (tile_array pf)\<lparr>data := map (cleared_tile ?bg) (data (tile_array pf))\<rparr>\<rparr>"
  have inv: "well_formed pf" "stamped pf"
    using reachable_invariant [OF assms] by simp_all
  have first: "clear_all_tiles pf = (None, ?pf1)"
    unfolding clear_all_tiles_result [OF inv(1)] cells_done_all by simp
  have holds: "\<forall>t \<in> set (data (tile_array ?pf1)). hold t = [?bg]"
    using inv(2) by (auto simp: stamped_def cleared_tile_def)
  have wf1: "well_formed ?pf1"
    using inv(1) by (simp add: well_formed_def)
  have same: "map (cleared_tile ?bg) (data (tile_array ?pf1)) = data (tile_array ?pf1)"
    by (simp add: comp_def cleared_tile_idem)
  have none: "concat (map ?rs (data (tile_array ?pf1))) = []"
    by (simp add: comp_def is_empty_cleared_tile)
  have bg1: "empty_tile_img ?pf1 = ?bg"
    by simp
  have "clear_all_tiles ?pf1 = (None, ?pf1)"
    unfolding clear_all_tiles_result [OF wf1] cells_done_all bg1 same none
    by simp
  then show ?thesis
    using first holds by (intro exI [of _ ?pf1]) simp
qed

theorem clear_all_tiles_idempotent_witness:
  "\<exists>pf1. clear_all_tiles (snd (blyt 1 0 ''x'' (example_playfield 2 3))) = (None, pf1)
     \<and> hold (data (tile_array (snd (blyt 1 0 ''x'' (example_playfield 2 3)))) ! 1) = [''bg'', ''x'']
     \<and> hold (data (tile_array pf1) ! 1) = [''bg'']
     \<and> clear_all_tiles pf1 = (None, pf1)"
proof -
  let ?pf = "snd (blyt 1 0 ''x'' (example_playfield 2 3))"
  have "blyt 1 0 ''x'' (example_playfield 2 3) = (fst (blyt 1 0 ''x'' (example_playfield 2 3)), ?pf)"
    by simp
  from reachable.blitted [OF example_playfield_2_3_reachable this] have "reachable ?pf" .
  from clear_all_tiles_idempotent [OF this]
  obtain pf1 where first: "clear_all_tiles ?pf = (None, pf1)"
    and data1: "data (tile_array pf1) = map (cleared_tile (empty_tile_img ?pf)) (data (tile_array ?pf))"
    and again: "clear_all_tiles pf1 = (None, pf1)"
    by blast
  have before: "hold (data (tile_array ?pf) ! 1) = [''bg'', ''x'']"
    and len: "length (data (tile_array ?pf)) = 6" and bg: "empty_tile_img ?pf = ''bg''"
    by (simp_all add: blyt_def getitem_def norm_index_def example_playfield_def Let_def)
  have "hold (data (tile_array pf1) ! 1) = [''bg'']"
    using before len by (simp add: data1 bg cleared_tile_def is_empty_def)
  then show ?thesis
    using first again before by blast
qed



section \<open>Properties of the piece generator\<close>

lemma next_in_range_bounds:
  assumes "low \<le> high" and "next_in_range low high src = (v, src')"
  shows "low \<le> v \<and> v \<le> high \<and> position src' = position src + 1 \<and> tape src' = tape src"
proof -
  let ?m = "high - low + 1"
  have pos: "0 < ?m" using assms(1) by simp
  have "0 \<le> int (tape src (position src)) mod ?m"
    using pos by (rule pos_mod_sign)
  moreover have "int (tape src (position src)) mod ?m < ?m"
    using pos by (rule pos_mod_bound)
  ultimately show ?thesis
    using assms(2) by (auto simp: next_in_range_def)
qed

lemma spawn_next_step:
  assumes "policy u = No_rules" and "variant_count u = 7" and "spawn_next u = (v, u')"
  shows "0 \<le> v \<and> v \<le> 6 \<and> position (source u') = position (source u) + 1
     \<and> policy u' = No_rules \<and> variant_count u' = 7"
proof -
  obtain src' where d: "next_in_range 0 6 (source u) = (v, src')" and u': "u' = u\<lparr>source := src'\<rparr>"
    using assms by (auto simp: spawn_next_def split: prod.splits)
  show ?thesis
    using next_in_range_bounds [OF _ d] assms(1,2) by (simp add: u')
qed

lemma spawn_many_range:
  assumes "policy u = No_rules" and "variant_count u = 7" and "spawn_many n u = (vs, u')"
  shows "length vs = n \<and> (\<forall>v \<in> set vs. 0 \<le> v \<and> v \<le> 6)
     \<and> position (source u') = position (source u) + n"
  using assms
proof (induction n arbitrary: u vs u')
  case 0
  then show ?case by simp
next
  case (Suc n)
  obtain v u1 where s1: "spawn_next u = (v, u1)" by (cases "spawn_next u")
  obtain ws u2 where s2: "spawn_many n u1 = (ws, u2)" by (cases "spawn_many n u1")
  have vs: "vs = v # ws" and u': "u' = u2"
    using Suc.prems(3) s1 s2 by simp_all
  have step: "0 \<le> v \<and> v \<le> 6 \<and> position (source u1) = position (source u) + 1
      \<and> policy u1 = No_rules \<and> variant_count u1 = 7"
    by (rule spawn_next_step [OF Suc.prems(1,2) s1])
  have rest: "length ws = n \<and> (\<forall>v \<in> set ws. 0 \<le> v \<and> v \<le> 6)
      \<and> position (source u2) = position (source u1) + n"
    using step by (intro Suc.IH [OF _ _ s2]) simp_all
  show ?case
    using step rest by (simp add: vs u')
qed

text \<open>
  C9: a generator constructed with the "no rules" policy and 7 variants returns, at
  every call of \<open>spawn_next\<close> and for every number of calls in a row, an index from
  0 to 6, and every call advances the position of its random source by one.
\<close>

theorem spawn_next_in_range:
  assumes "Unpacker_init No_rules 7 src = Inr u"
  shows "(\<exists>v u'. spawn_next u = (v, u') \<and> 0 \<le> v \<and> v \<le> 6
            \<and> position (source u') = position (source u) + 1)
     \<and> (\<exists>vs u'. spawn_many n u = (vs, u') \<and> length vs = n
            \<and> (\<forall>v \<in> set vs. 0 \<le> v \<and> v \<le> 6)
            \<and> position (source u') = position (source u) + n)"
proof -
  have u: "policy u = No_rules" "variant_count u = 7"
    using assms by (auto simp: Unpacker_init_def)
  obtain v u1 where s1: "spawn_next u = (v, u1)" by (cases "spawn_next u")
  obtain vs u2 where s2: "spawn_many n u = (vs, u2)" by (cases "spawn_many n u")
  show ?thesis
    using spawn_next_step [OF u s1] spawn_many_range [OF u s2] s1 s2 by simp
qed

theorem spawn_next_in_range_witness:
  "\<exists>u. Unpacker_init No_rules 7 example_source = Inr u
     \<and> fst (spawn_next u) = 3
     \<and> position (source (snd (spawn_next u))) = 1
     \<and> fst (spawn_many 3 u) = [3, 1, 6]
     \<and> position (source (snd (spawn_many 3 u))) = 3"
proof -
  let ?u = "\<lparr>policy = No_rules, variant_count = 7, source = example_source\<rparr>"
  have init: "Unpacker_init No_rules 7 example_source = Inr ?u"
    by (simp add: Unpacker_init_def)
  have pos: "position (source ?u) = 0"
    by (simp add: example_source_def)
  have one: "fst (spawn_next ?u) = 3"
    by (simp add: spawn_next_def next_in_range_def example_source_def)
  have three: "fst (spawn_many 3 ?u) = [3, 1, 6]"
    by (simp add: numeral_3_eq_3 spawn_next_def next_in_range_def example_source_def
        split: prod.splits)
  from spawn_next_in_range [OF init, of 3]
  have "position (source (snd (spawn_next ?u))) = 1"
    and "position (source (snd (spawn_many 3 ?u))) = 3"
    unfolding pos by auto
  then show ?thesis
    using init one three by blast
qed

end
